theory Spec2Isabelle
  imports Main "HOL-Library.AList"
begin

section \<open>Values\<close>

text \<open>
  Schema fragments, parameters and response objects are plain Python dictionaries,
  lists and scalars. A dictionary is an association list in insertion order, as
  Python keeps it; \<^const>\<open>AList.update\<close> is the assignment \<^verbatim>\<open>d[k] = v\<close> (an existing key
  keeps its position, a new key goes to the end) and \<^const>\<open>AList.delete\<close> removes a key.
  Text is a list of 8-bit code points.
\<close>

datatype json =
    JNull
  | JBool bool
  | JNum int
  | JStr string
  | JArr "json list"
  | JObj "(string \<times> json) list"

type_synonym dict = "(string \<times> json) list"

datatype error = KeyError | ValueError | TypeError | AttributeError | SchemaError

definition bindE :: "error + 'a \<Rightarrow> ('a \<Rightarrow> error + 'b) \<Rightarrow> error + 'b" where
  "bindE m f = (case m of Inl e \<Rightarrow> Inl e | Inr x \<Rightarrow> f x)"

text \<open>
  The component table \<^verbatim>\<open>components["schemas"]\<close> is a dictionary that \<^verbatim>\<open>update\<close> fills, and
  \<^verbatim>\<open>update\<close> can store a key that is no string. Its keys are values that can be hashed:
  strings, integers, booleans and \<open>None\<close>, where \<open>True\<close> and \<open>False\<close> are the same key as
  \<open>1\<close> and \<open>0\<close>. An assignment to a key that is there keeps the key object and its
  position and replaces the value; a new key goes to the end.
\<close>

type_synonym table = "(json \<times> json) list"

fun key_norm :: "json \<Rightarrow> json" where
  "key_norm (JBool b) = JNum (if b then 1 else 0)"
| "key_norm k = k"

fun hashable_key :: "json \<Rightarrow> bool" where
  "hashable_key (JArr xs) = False"
| "hashable_key (JObj kvs) = False"
| "hashable_key k = True"

fun setitem :: "table \<Rightarrow> json \<Rightarrow> json \<Rightarrow> table" where
  "setitem [] k v = [(k, v)]"
| "setitem (p # ps) k v =
     (if key_norm (fst p) = key_norm k then (fst p, v) # ps else p # setitem ps k v)"



text \<open>
  \<^verbatim>\<open>t.update(other)\<close>. A mapping is assigned entry by entry, in its order. Any other
  argument is iterated, and every element must be a sequence of two items, a key that
  can be hashed and a value: a list of two elements, a string of two characters or a
  mapping with two keys. An element that is no sequence raises \<open>TypeError\<close>, one of
  another length \<open>ValueError\<close>, a key that is a list or a mapping \<open>TypeError\<close>. A string
  is iterated character by character, so only the empty string is accepted, and
  \<open>None\<close>, a boolean or a number cannot be iterated: \<open>TypeError\<close>.
\<close>

definition update_mapping :: "table \<Rightarrow> dict \<Rightarrow> table" where
  "update_mapping t d = fold (\<lambda>kv acc. setitem acc (JStr (fst kv)) (snd kv)) d t"

fun pair_of :: "json \<Rightarrow> error + (json \<times> json)" where
  "pair_of (JArr xs) = (case xs of [k, v] \<Rightarrow> Inr (k, v) | _ \<Rightarrow> Inl ValueError)"
| "pair_of (JStr s) = (case s of [a, b] \<Rightarrow> Inr (JStr [a], JStr [b]) | _ \<Rightarrow> Inl ValueError)"
| "pair_of (JObj kvs) =
     (case kvs of [p, q] \<Rightarrow> Inr (JStr (fst p), JStr (fst q)) | _ \<Rightarrow> Inl ValueError)"
| "pair_of e = Inl TypeError"

fun update_pairs :: "table \<Rightarrow> json list \<Rightarrow> error + table" where
  "update_pairs t [] = Inr t"
| "update_pairs t (e # es) =
     bindE (pair_of e) (\<lambda>kv.
       if hashable_key (fst kv) then update_pairs (setitem t (fst kv) (snd kv)) es
       else Inl TypeError)"

fun dict_update :: "table \<Rightarrow> json \<Rightarrow> error + table" where
  "dict_update t (JObj d) = Inr (update_mapping t d)"
| "dict_update t (JArr es) = update_pairs t es"
| "dict_update t (JStr s) = (if s = [] then Inr t else Inl ValueError)"
| "dict_update t other = Inl TypeError"

section \<open>Objects with identity\<close>

text \<open>
  Where the identity of a dictionary object matters, objects live in a store: a list of
  object values, an address being an index into it. A new object is appended.
\<close>

type_synonym 'a store = "'a list"

definition alloc :: "'a store \<Rightarrow> 'a \<Rightarrow> nat \<times> 'a store" where
  "alloc s v = (length s, s @ [v])"

section \<open>Splitting the definitions off a schema fragment\<close>

text \<open>
  \<^verbatim>\<open>
  def _split_definitions(schema: dict) -> Tuple[dict, dict]:
      new_schema = schema.copy()
      definitions = new_schema.pop("definitions", {})
      return definitions, new_schema
  \<close>
  On values: the result pair, computed from the value of the argument.
\<close>

definition split_definitions :: "dict \<Rightarrow> json \<times> dict" where
  "split_definitions schema =
     (let new_schema = schema;
          definitions = (case map_of new_schema ''definitions'' of
                           None \<Rightarrow> JObj [] | Some d \<Rightarrow> d);
          new_schema = AList.delete ''definitions'' new_schema
      in (definitions, new_schema))"

text \<open>
  On objects: \<open>schema\<close> is the address of the argument, \<^verbatim>\<open>copy\<close> allocates a new
  dictionary object with the same entries, and \<^verbatim>\<open>pop\<close> changes the object it is
  called on. The result is the popped value and the address of the new object.
\<close>

definition dict_copy :: "dict store \<Rightarrow> nat \<Rightarrow> nat \<times> dict store" where
  "dict_copy s a = alloc s (s ! a)"

definition dict_pop :: "dict store \<Rightarrow> nat \<Rightarrow> string \<Rightarrow> json \<Rightarrow> json \<times> dict store" where
  "dict_pop s a k dflt =
     ((case map_of (s ! a) k of None \<Rightarrow> dflt | Some v \<Rightarrow> v),
      s[a := AList.delete k (s ! a)])"

definition split_definitions_obj :: "dict store \<Rightarrow> nat \<Rightarrow> (json \<times> nat) \<times> dict store" where
  "split_definitions_obj s schema =
     (let (new_schema, s1) = dict_copy s schema;
          (definitions, s2) = dict_pop s1 new_schema ''definitions'' (JObj [])
      in ((definitions, new_schema), s2))"

section \<open>Text operations of Python used by the builder\<close>

text \<open>
  \<^verbatim>\<open>str.splitlines\<close>: the line boundaries among the code points below 256 are LF, VT, FF,
  CR, FS, GS, RS and NEL, and CR LF counts as one boundary. No empty last line is
  produced after a final boundary, and the empty text has no line at all.
\<close>

definition linebreak :: "char \<Rightarrow> bool" where
  "linebreak c =
     (c = CHR 0x0A \<or> c = CHR 0x0B \<or> c = CHR 0x0C \<or> c = CHR 0x0D
      \<or> c = CHR 0x1C \<or> c = CHR 0x1D \<or> c = CHR 0x1E \<or> c = CHR 0x85)"

fun lines_from :: "string \<Rightarrow> string \<Rightarrow> string list" where
  "lines_from cur [] = (if cur = [] then [] else [cur])"
| "lines_from cur (c # cs) =
     (if c = CHR 0x0D \<and> cs \<noteq> [] \<and> hd cs = CHR 0x0A then cur # lines_from [] (tl cs)
      else if linebreak c then cur # lines_from [] cs
      else lines_from (cur @ [c]) cs)"

definition splitlines :: "string \<Rightarrow> string list" where
  "splitlines s = lines_from [] s"

text \<open>\<^verbatim>\<open>sep.join(xs)\<close>\<close>

fun join :: "string \<Rightarrow> string list \<Rightarrow> string" where
  "join sep [] = []"
| "join sep [x] = x"
| "join sep (x # y # ys) = x @ sep @ join sep (y # ys)"

text \<open>
  \<^verbatim>\<open>str.lower\<close>: below 256 the letters with a lowercase form are A to Z and the
  Latin-1 capitals 0xC0 to 0xDE without the multiplication sign 0xD7; the lowercase
  form is 32 code points higher.
\<close>

definition uppercase :: string where
  "uppercase = ''ABCDEFGHIJKLMNOPQRSTUVWXYZ'' @
     [CHR 0xC0, CHR 0xC1, CHR 0xC2, CHR 0xC3, CHR 0xC4, CHR 0xC5, CHR 0xC6, CHR 0xC7,
      CHR 0xC8, CHR 0xC9, CHR 0xCA, CHR 0xCB, CHR 0xCC, CHR 0xCD, CHR 0xCE, CHR 0xCF,
      CHR 0xD0, CHR 0xD1, CHR 0xD2, CHR 0xD3, CHR 0xD4, CHR 0xD5, CHR 0xD6,
      CHR 0xD8, CHR 0xD9, CHR 0xDA, CHR 0xDB, CHR 0xDC, CHR 0xDD, CHR 0xDE]"

definition lowercase :: string where
  "lowercase = ''abcdefghijklmnopqrstuvwxyz'' @
     [CHR 0xE0, CHR 0xE1, CHR 0xE2, CHR 0xE3, CHR 0xE4, CHR 0xE5, CHR 0xE6, CHR 0xE7,
      CHR 0xE8, CHR 0xE9, CHR 0xEA, CHR 0xEB, CHR 0xEC, CHR 0xED, CHR 0xEE, CHR 0xEF,
      CHR 0xF0, CHR 0xF1, CHR 0xF2, CHR 0xF3, CHR 0xF4, CHR 0xF5, CHR 0xF6,
      CHR 0xF8, CHR 0xF9, CHR 0xFA, CHR 0xFB, CHR 0xFC, CHR 0xFD, CHR 0xFE]"

definition lower_char :: "char \<Rightarrow> char" where
  "lower_char c = (case map_of (zip uppercase lowercase) c of None \<Rightarrow> c | Some l \<Rightarrow> l)"

definition lower :: "string \<Rightarrow> string" where
  "lower s = map lower_char s"

section \<open>The path pattern\<close>

text \<open>
  \<^verbatim>\<open>PATH_RE = re.compile("<(?:[^:]*:)?([^>]+)>")\<close>, used in
  \<^verbatim>\<open>re.sub(PATH_RE, r"{\1}", rule.rule)\<close>.

  \<open>group_name s\<close> matches the part \<^verbatim>\<open>([^>]+)>\<close> at the start of \<open>s\<close>; it returns the
  group and the text after the match. The group is greedy: it takes every character
  before the first closing bracket, needs one character at least, and the closing
  bracket must follow. Giving characters back cannot help, the character after a
  shorter group is not a closing bracket.

  \<open>match_placeholder s\<close> matches the pattern behind its opening bracket. The optional
  prefix \<^verbatim>\<open>(?:[^:]*:)?\<close> is tried first, and \<^verbatim>\<open>[^:]*\<close> runs over any character
  that is not a colon, a closing bracket included, so the prefix ends at the first
  colon found anywhere in the rest of the text. Only when the group does not match
  behind that colon (or there is no colon) is the prefix left out.
\<close>

definition group_name :: "string \<Rightarrow> (string \<times> string) option" where
  "group_name s =
     (let name = takeWhile (\<lambda>c. c \<noteq> CHR ''>'') s;
          rest = dropWhile (\<lambda>c. c \<noteq> CHR ''>'') s
      in if name \<noteq> [] \<and> rest \<noteq> [] then Some (name, tl rest) else None)"

definition match_placeholder :: "string \<Rightarrow> (string \<times> string) option" where
  "match_placeholder s =
     (let from_colon = dropWhile (\<lambda>c. c \<noteq> CHR '':'') s
      in case (if from_colon \<noteq> [] then group_name (tl from_colon) else None) of
           Some m \<Rightarrow> Some m
         | None \<Rightarrow> group_name s)"

text \<open>
  The substitution scans from the left; at an opening bracket where the pattern
  matches, the match is replaced by the group in braces and the scan goes on behind
  the match, otherwise the character is kept.
\<close>

function path_sub :: "string \<Rightarrow> string" where
  "path_sub [] = []"
| "path_sub (c # cs) =
     (if c = CHR ''<'' then
        (case match_placeholder cs of
           Some (name, rest) \<Rightarrow> ''{'' @ name @ ''}'' @ path_sub rest
         | None \<Rightarrow> c # path_sub cs)
      else c # path_sub cs)"
  by pat_completeness auto
termination
proof (relation "measure length")
  fix c :: char and cs name rest and x2 :: "string \<times> string"
  assume m: "match_placeholder cs = Some x2" and x: "(name, rest) = x2"
  have g: "length r < length s" if "group_name s = Some (n, r)" for s n r
  proof -
    from that have "r = tl (dropWhile (\<lambda>c. c \<noteq> CHR ''>'') s)"
      and "dropWhile (\<lambda>c. c \<noteq> CHR ''>'') s \<noteq> []"
      by (auto simp add: group_name_def Let_def split: if_splits)
    then have "length r < length (dropWhile (\<lambda>c. c \<noteq> CHR ''>'') s)"
      by simp
    also have "\<dots> \<le> length s"
      by (rule length_dropWhile_le)
    finally show ?thesis .
  qed
  let ?fc = "dropWhile (\<lambda>c. c \<noteq> CHR '':'') cs"
  from m x have "group_name (tl ?fc) = Some (name, rest) \<or> group_name cs = Some (name, rest)"
    by (auto simp add: match_placeholder_def Let_def split: if_splits option.splits)
  then have "length rest < length cs"
  proof
    assume "group_name (tl ?fc) = Some (name, rest)"
    then have "length rest < length (tl ?fc)" by (rule g)
    also have "\<dots> \<le> length ?fc" by simp
    also have "\<dots> \<le> length cs" by (rule length_dropWhile_le)
    finally show ?thesis .
  next
    assume "group_name cs = Some (name, rest)"
    then show ?thesis by (rule g)
  qed
  then show "(rest, c # cs) \<in> measure length" by simp
qed simp_all

section \<open>Routes, handlers and their annotations\<close>

text \<open>
  A validation model class, as far as the builder uses it: its \<^verbatim>\<open>__doc__\<close> and what
  \<^verbatim>\<open>pydantic.schema.model_schema(cls, ref_prefix=...)\<close> returns for it, a schema
  fragment or the generator's failure. pydantic is not part of the repository.
\<close>

record model_class =
  model_doc :: "string option"
  model_schema :: "string \<Rightarrow> error + dict"

text \<open>
  Modelled from the spec: \<^verbatim>\<open>DataSource\<close> is declared in \<^verbatim>\<open>validation.py\<close>, which is not
  among the sources; the spec gives the data-source enum as JSON and FORM.
\<close>

datatype DataSource = JSON | FORM

text \<open>
  A view function with the attributes the builder reads: \<^verbatim>\<open>__doc__\<close> and the four
  attributes set by the decorators, each \<open>None\<close> while the attribute does not exist.
\<close>

record view_function =
  func_doc :: "string option"
  flask_schema_hidden :: "bool option"
  flask_schema_response :: "(int \<times> model_class) list option"
  flask_schema_request :: "(model_class \<times> DataSource) option"
  flask_schema_querystring :: "model_class option"

text \<open>\<^verbatim>\<open>getattr(obj, name, default)\<close>\<close>

definition getattr :: "'a option \<Rightarrow> 'a \<Rightarrow> 'a" where
  "getattr attribute dflt = (case attribute of None \<Rightarrow> dflt | Some v \<Rightarrow> v)"

text \<open>
  \<^verbatim>\<open>
  def hide_route(func: Callable) -> Callable:
      setattr(func, FLASK_SCHEMA_HIDDEN_ATTRIBUTE, True)
      return func
  \<close>
\<close>

definition hide_route :: "view_function \<Rightarrow> view_function" where
  "hide_route func = func\<lparr>flask_schema_hidden := Some True\<rparr>"

text \<open>
  A werkzeug rule: the URL pattern, the endpoint, the methods (a set, in the order
  the loop visits it), the automatic-options flag and \<^verbatim>\<open>_converters\<close>, the mapping
  from variable name to converter that werkzeug derives from the pattern.
\<close>

record Rule =
  rule :: string
  endpoint :: string
  methods :: "string list"
  provide_automatic_options :: bool
  converters :: "(string \<times> string) list"

record Flask =
  url_map :: "Rule list"
  view_functions :: "(string \<times> view_function) list"

record FlaskSchema =
  title :: "string option"
  version :: string
  tags :: "json list"
  convert_casing :: bool
  servers :: "json list option"

section \<open>The document\<close>

text \<open>
  The Path Item dictionary of one route; the three keys that are set only under a
  condition are \<open>None\<close> while absent. Status codes are integers.
\<close>

record path_item =
  parameters :: "json list"
  responses :: "(int \<times> json) list"
  description :: "string option"
  summary :: "string option"
  requestBody :: "json option"

text \<open>
  The returned document. \<open>paths\<close> maps a path to its verbs and a verb to a Path Item;
  \<open>'p\<close> is what stands for the Path Item: its address in the store of Path Item
  objects, or its value once the addresses are resolved.
\<close>

record 'p document =
  openapi :: string
  info_title :: "string option"
  info_version :: string
  components_schemas :: table
  paths :: "(string \<times> (string \<times> 'p) list) list"
  doc_tags :: "json list"
  doc_servers :: "json list option"

definition resolve :: "path_item store \<Rightarrow> nat document \<Rightarrow> path_item document" where
  "resolve s d =
     \<lparr>openapi = openapi d, info_title = info_title d, info_version = info_version d,
      components_schemas = components_schemas d,
      paths = map (\<lambda>pv. (fst pv, map (\<lambda>va. (fst va, s ! snd va)) (snd pv))) (paths d),
      doc_tags = doc_tags d, doc_servers = doc_servers d\<rparr>"

section \<open>Building the document\<close>

definition REF_PREFIX :: string where
  "REF_PREFIX = ''#/components/schemas/''"

text \<open>
  The four lines that the builder repeats for a response model, the request model and
  the querystring model:
  \<^verbatim>\<open>
  schema = model_schema(model_class, ref_prefix=REF_PREFIX)
  if extension.convert_casing:
      schema = camelize(schema)
  definitions, schema = _split_definitions(schema)
  components["schemas"].update(definitions)
  \<close>
  \<open>camelize\<close> is the function of the humps package, a parameter here.
\<close>

definition model_fragment ::
  "(dict \<Rightarrow> dict) \<Rightarrow> FlaskSchema \<Rightarrow> model_class \<Rightarrow> table \<Rightarrow> error + (table \<times> dict)" where
  "model_fragment camelize extension model schemas =
     bindE (model_schema model REF_PREFIX) (\<lambda>schema.
       let schema = (if convert_casing extension then camelize schema else schema);
           (definitions, schema) = split_definitions schema
       in bindE (dict_update schemas definitions) (\<lambda>schemas. Inr (schemas, schema)))"

definition response_object :: "dict \<Rightarrow> string option \<Rightarrow> json" where
  "response_object schema doc =
     JObj [(''content'', JObj [(''application/json'', JObj [(''schema'', JObj schema)])]),
           (''description'', (case doc of None \<Rightarrow> JNull | Some d \<Rightarrow> JStr d))]"

text \<open>The loop over \<^verbatim>\<open>response_models.items()\<close>, lines 257 to 270.\<close>

fun add_responses ::
  "(dict \<Rightarrow> dict) \<Rightarrow> FlaskSchema \<Rightarrow> (int \<times> model_class) list \<Rightarrow> table \<times> (int \<times> json) list
     \<Rightarrow> error + (table \<times> (int \<times> json) list)" where
  "add_responses camelize extension [] acc = Inr acc"
| "add_responses camelize extension (item # items) acc =
     bindE (model_fragment camelize extension (snd item) (fst acc)) (\<lambda>(schemas, schema).
       add_responses camelize extension items
         (schemas,
          AList.update (fst item) (response_object schema (model_doc (snd item))) (snd acc)))"

text \<open>Lines 272 to 291: the request body.\<close>

definition request_body ::
  "(dict \<Rightarrow> dict) \<Rightarrow> FlaskSchema \<Rightarrow> view_function \<Rightarrow> table \<Rightarrow> error + (table \<times> json option)" where
  "request_body camelize extension func schemas =
     (case flask_schema_request func of
        None \<Rightarrow> Inr (schemas, None)
      | Some request_data \<Rightarrow>
          bindE (model_fragment camelize extension (fst request_data) schemas) (\<lambda>(schemas, schema).
            let encoding = (if snd request_data = JSON then ''application/json''
                            else ''application/x-www-form-urlencoded'')
            in Inr (schemas, Some (JObj [(''content'', JObj [(encoding, JObj [(''schema'', JObj schema)])])]))))"

text \<open>
  Lines 293 to 308: the query parameters. \<^verbatim>\<open>schema["properties"]\<close> raises \<open>KeyError\<close>
  without the key, \<^verbatim>\<open>.items()\<close> raises \<open>AttributeError\<close> on a value that is no mapping.
\<close>

definition query_parameters ::
  "(dict \<Rightarrow> dict) \<Rightarrow> FlaskSchema \<Rightarrow> view_function \<Rightarrow> table \<Rightarrow> error + (table \<times> json list)" where
  "query_parameters camelize extension func schemas =
     (case flask_schema_querystring func of
        None \<Rightarrow> Inr (schemas, [])
      | Some querystring_model \<Rightarrow>
          bindE (model_fragment camelize extension querystring_model schemas) (\<lambda>(schemas, schema).
            case map_of schema ''properties'' of
              None \<Rightarrow> Inl KeyError
            | Some (JObj properties) \<Rightarrow>
                Inr (schemas,
                     map (\<lambda>item. JObj [(''name'', JStr (fst item)), (''in'', JStr ''query''),
                                        (''schema'', snd item)]) properties)
            | Some _ \<Rightarrow> Inl AttributeError))"

text \<open>Lines 310 to 316: one parameter for every entry of \<^verbatim>\<open>rule._converters\<close>.\<close>

definition path_parameters :: "Rule \<Rightarrow> json list" where
  "path_parameters r =
     map (\<lambda>item. JObj [(''name'', JStr (fst item)), (''in'', JStr ''path'')]) (converters r)"

text \<open>
  Lines 251 to 254:
  \<^verbatim>\<open>
  if func.__doc__ is not None:
      summary, *description = func.__doc__.splitlines()
      path_object["description"] = "\n".join(description)
      path_object["summary"] = summary
  \<close>
  The unpacking needs one line at least and raises \<open>ValueError\<close> otherwise. The result is
  the pair of \<open>description\<close> and \<open>summary\<close>.
\<close>

definition doc_lines :: "view_function \<Rightarrow> error + (string option \<times> string option)" where
  "doc_lines func =
     (case func_doc func of
        None \<Rightarrow> Inr (None, None)
      | Some doc \<Rightarrow>
          (case splitlines doc of
             [] \<Rightarrow> Inl ValueError
           | first_line # more_lines \<Rightarrow>
               Inr (Some (join [CHR 0x0A] more_lines), Some first_line)))"

text \<open>
  Lines 247 to 316: the Path Item of a route that is not hidden. The dictionary is
  created at line 247 and filled in place; nothing else refers to it before line 325,
  so its value is computed here and the object is allocated by the caller.
\<close>

definition build_path_object ::
  "(dict \<Rightarrow> dict) \<Rightarrow> FlaskSchema \<Rightarrow> view_function \<Rightarrow> Rule \<Rightarrow> table \<Rightarrow> error + (table \<times> path_item)" where
  "build_path_object camelize extension func r schemas =
     bindE (doc_lines func) (\<lambda>(doc_description, doc_summary).
     bindE (add_responses camelize extension (getattr (flask_schema_response func) []) (schemas, []))
       (\<lambda>(schemas, path_responses).
     bindE (request_body camelize extension func schemas) (\<lambda>(schemas, body).
     bindE (query_parameters camelize extension func schemas) (\<lambda>(schemas, query).
       Inr (schemas,
            \<lparr>parameters = query @ path_parameters r, responses = path_responses,
             description = doc_description, summary = doc_summary, requestBody = body\<rparr>)))))"

text \<open>
  Lines 321 to 325, the loop over \<^verbatim>\<open>rule.methods\<close>, on the verbs of one path:
  \<^verbatim>\<open>
  for method in rule.methods:
      if method == "HEAD" or (method == "OPTIONS" and rule.provide_automatic_options):
          continue
      paths[path][method.lower()] = path_object
  \<close>
  \<open>path_object\<close> is the reference that is stored: the same one for every verb.
\<close>

definition add_methods :: "'p \<Rightarrow> Rule \<Rightarrow> (string \<times> 'p) list \<Rightarrow> (string \<times> 'p) list" where
  "add_methods path_object r verbs =
     fold (\<lambda>method verbs.
             if method = ''HEAD'' \<or> (method = ''OPTIONS'' \<and> provide_automatic_options r)
             then verbs
             else AList.update (lower method) path_object verbs)
          (methods r) verbs"

text \<open>
  Lines 318 to 325: \<^verbatim>\<open>paths.setdefault(path, {})\<close> and the loop, which assigns into
  the dictionary found under \<open>path\<close>.
\<close>

definition add_route ::
  "'p \<Rightarrow> Rule \<Rightarrow> (string \<times> (string \<times> 'p) list) list \<Rightarrow> (string \<times> (string \<times> 'p) list) list" where
  "add_route path_object r ps =
     (let path = path_sub (rule r);
          verbs = (case map_of ps path of None \<Rightarrow> [] | Some verbs \<Rightarrow> verbs)
      in AList.update path (add_methods path_object r verbs) ps)"

text \<open>
  What the loop over the rules carries: the store of Path Item objects,
  \<^verbatim>\<open>components["schemas"]\<close> and \<^verbatim>\<open>paths\<close>.
\<close>

record accum =
  acc_objects :: "path_item store"
  acc_schemas :: table
  acc_paths :: "(string \<times> (string \<times> nat) list) list"

text \<open>
  One round of the loop, lines 243 to 325. \<^verbatim>\<open>app.view_functions[rule.endpoint]\<close> raises
  \<open>KeyError\<close> for an endpoint without a view function.
\<close>

definition process_rule ::
  "(dict \<Rightarrow> dict) \<Rightarrow> Flask \<Rightarrow> FlaskSchema \<Rightarrow> Rule \<Rightarrow> accum \<Rightarrow> error + accum" where
  "process_rule camelize app extension r acc =
     (case map_of (view_functions app) (endpoint r) of
        None \<Rightarrow> Inl KeyError
      | Some func \<Rightarrow>
          if getattr (flask_schema_hidden func) False then Inr acc
          else
            bindE (build_path_object camelize extension func r (acc_schemas acc))
              (\<lambda>(schemas, path_object).
                 let (a, objects) = alloc (acc_objects acc) path_object
                 in Inr \<lparr>acc_objects = objects, acc_schemas = schemas,
                         acc_paths = add_route a r (acc_paths acc)\<rparr>))"

fun for_rules ::
  "(dict \<Rightarrow> dict) \<Rightarrow> Flask \<Rightarrow> FlaskSchema \<Rightarrow> Rule list \<Rightarrow> accum \<Rightarrow> error + accum" where
  "for_rules camelize app extension [] acc = Inr acc"
| "for_rules camelize app extension (r # rs) acc =
     bindE (process_rule camelize app extension r acc) (for_rules camelize app extension rs)"

text \<open>
  \<^verbatim>\<open>_build_openapi_schema(app, extension)\<close>, run on the store \<open>s\<close> of the Path Item objects
  that exist already. It returns the document, with addresses for the Path Items, and
  the store.
\<close>

definition build_openapi_schema ::
  "(dict \<Rightarrow> dict) \<Rightarrow> Flask \<Rightarrow> FlaskSchema \<Rightarrow> path_item store
     \<Rightarrow> error + (nat document \<times> path_item store)" where
  "build_openapi_schema camelize app extension s =
     bindE (for_rules camelize app extension (url_map app)
              \<lparr>acc_objects = s, acc_schemas = [], acc_paths = []\<rparr>)
       (\<lambda>acc. Inr (\<lparr>openapi = ''3.0.3'',
                      info_title = title extension, info_version = version extension,
                      components_schemas = acc_schemas acc, paths = acc_paths acc,
                      doc_tags = tags extension, doc_servers = servers extension\<rparr>,
                    acc_objects acc))"

section \<open>Converting the result of a view function\<close>

text \<open>
  The values a view function returns. A dataclass instance has its class name and its
  fields in declaration order, \<open>PDataclassType\<close> is a dataclass itself (the class, not
  an instance), and an instance of a pydantic model has its class name and the
  dictionary its \<^verbatim>\<open>.dict()\<close> returns.
\<close>

datatype pyval =
    PNone
  | PBool bool
  | PInt int
  | PStr string
  | PList "pyval list"
  | PTuple "pyval list"
  | PDict "(pyval \<times> pyval) list"
  | PDataclass string "(string \<times> pyval) list"
  | PDataclassType string
  | PModel string pyval

text \<open>
  \<^verbatim>\<open>dataclasses.is_dataclass\<close> holds for a dataclass and for its instances;
  \<^verbatim>\<open>dataclasses.asdict\<close> of the standard library raises \<open>TypeError\<close> unless it gets an
  instance, and converts with \<^verbatim>\<open>_asdict_inner\<close>:
  \<^verbatim>\<open>
  if _is_dataclass_instance(obj):
      result = []
      for f in fields(obj):
          value = _asdict_inner(getattr(obj, f.name), dict_factory)
          result.append((f.name, value))
      return dict_factory(result)
  elif isinstance(obj, (list, tuple)):
      return type(obj)(_asdict_inner(v, dict_factory) for v in obj)
  elif isinstance(obj, dict):
      return type(obj)((_asdict_inner(k, dict_factory), _asdict_inner(v, dict_factory))
                       for k, v in obj.items())
  else:
      return copy.deepcopy(obj)
  \<close>
  (a branch for named tuples, which are not among the values here, is left out).
  The keys of a dictionary are converted as well, and the dictionary is built again
  from the converted pairs, which hashes every converted key: a key that has become
  a dictionary, or a tuple with one inside, raises \<open>TypeError\<close>. \<open>hashable\<close> says
  whether a converted key has a hash: a list and a dictionary have none, a tuple has
  one if its elements have, and any other converted key is a copy of the key of the
  dictionary, which has one.
\<close>

fun is_dataclass :: "pyval \<Rightarrow> bool" where
  "is_dataclass (PDataclass n fs) = True"
| "is_dataclass (PDataclassType n) = True"
| "is_dataclass v = False"

fun hashable :: "pyval \<Rightarrow> bool" where
  "hashable (PList xs) = False"
| "hashable (PDict items) = False"
| "hashable (PTuple xs) = list_all hashable xs"
| "hashable v = True"

text \<open>The results of a sequence of steps, or the first error among them.\<close>

fun sequenceE :: "(error + 'a) list \<Rightarrow> error + 'a list" where
  "sequenceE [] = Inr []"
| "sequenceE (m # ms) = bindE m (\<lambda>x. bindE (sequenceE ms) (\<lambda>xs. Inr (x # xs)))"

fun asdict_inner :: "pyval \<Rightarrow> error + pyval" where
  "asdict_inner (PDataclass n fs) =
     bindE (sequenceE (map (\<lambda>(f, v). bindE (asdict_inner v) (\<lambda>w. Inr (PStr f, w))) fs))
       (\<lambda>result. Inr (PDict result))"
| "asdict_inner (PList xs) = bindE (sequenceE (map asdict_inner xs)) (\<lambda>ys. Inr (PList ys))"
| "asdict_inner (PTuple xs) = bindE (sequenceE (map asdict_inner xs)) (\<lambda>ys. Inr (PTuple ys))"
| "asdict_inner (PDict items) =
     bindE (sequenceE (map (\<lambda>(k, v).
              bindE (asdict_inner k) (\<lambda>k'.
              bindE (asdict_inner v) (\<lambda>v'.
                if hashable k' then Inr (k', v') else Inl TypeError))) items))
       (\<lambda>result. Inr (PDict result))"
| "asdict_inner v = Inr v"

fun asdict :: "pyval \<Rightarrow> error + pyval" where
  "asdict (PDataclass n fs) = asdict_inner (PDataclass n fs)"
| "asdict v = Inl TypeError"

text \<open>
  \<^verbatim>\<open>
  def decorator(result) -> ResponseReturnValue:
      status_or_headers = None
      headers = None
      if isinstance(result, tuple):
          value, status_or_headers, headers = result + (None,) * (3 - len(result))
      else:
          value = result
      if is_dataclass(value):
          dict_or_value = asdict(value)
      elif isinstance(value, BaseModel):
          dict_or_value = value.dict()
      else:
          dict_or_value = value
      return func((dict_or_value, status_or_headers, headers))
  \<close>
  A tuple of more than three elements cannot be unpacked: \<open>ValueError\<close>.
\<close>

definition unpack_result :: "pyval \<Rightarrow> error + (pyval \<times> pyval \<times> pyval)" where
  "unpack_result result =
     (case result of
        PTuple xs \<Rightarrow>
          (case xs @ replicate (3 - length xs) PNone of
             [v, status_or_headers, headers] \<Rightarrow> Inr (v, status_or_headers, headers)
           | _ \<Rightarrow> Inl ValueError)
      | _ \<Rightarrow> Inr (result, PNone, PNone))"

definition dict_or_value :: "pyval \<Rightarrow> error + pyval" where
  "dict_or_value v =
     (if is_dataclass v then asdict v
      else (case v of PModel n d \<Rightarrow> Inr d | _ \<Rightarrow> Inr v))"

definition convert_model_result :: "(pyval \<times> pyval \<times> pyval \<Rightarrow> 'r) \<Rightarrow> pyval \<Rightarrow> error + 'r" where
  "convert_model_result func result =
     bindE (unpack_result result) (\<lambda>(v, status_or_headers, headers).
     bindE (dict_or_value v) (\<lambda>d. Inr (func (d, status_or_headers, headers))))"

section \<open>Notions used in the properties\<close>

text \<open>
  A rule is hidden when its view function exists and the hidden attribute, read with
  the default \<open>False\<close>, is true: the test of line 244.
\<close>

definition hidden_rule :: "Flask \<Rightarrow> Rule \<Rightarrow> bool" where
  "hidden_rule app r =
     (case map_of (view_functions app) (endpoint r) of
        None \<Rightarrow> False
      | Some func \<Rightarrow> getattr (flask_schema_hidden func) False)"

text \<open>
  The verbs a rule is expected to show: its methods in lowercase, without \<open>HEAD\<close>, and
  without \<open>OPTIONS\<close> when the rule provides the automatic options.
\<close>

definition emitted_verbs :: "Rule \<Rightarrow> string list" where
  "emitted_verbs r =
     map lower
       (filter (\<lambda>m. m \<noteq> ''HEAD'' \<and> \<not> (m = ''OPTIONS'' \<and> provide_automatic_options r))
          (methods r))"

text \<open>The verb keys found under a path, \<^verbatim>\<open>paths[path].keys()\<close>, empty without the path.\<close>

definition verbs_at :: "(string \<times> (string \<times> 'p) list) list \<Rightarrow> string \<Rightarrow> string set" where
  "verbs_at ps p = (case map_of ps p of None \<Rightarrow> {} | Some vs \<Rightarrow> fst ` set vs)"

text \<open>
  Reading through the document: the reference stored at \<^verbatim>\<open>paths[path][verb]\<close>, the Path
  Item it refers to, and a change made in place to the object reached that way.
\<close>

definition address_at :: "nat document \<Rightarrow> string \<Rightarrow> string \<Rightarrow> nat option" where
  "address_at d path verb =
     (case map_of (paths d) path of None \<Rightarrow> None | Some verbs \<Rightarrow> map_of verbs verb)"

definition path_item_at ::
  "path_item store \<Rightarrow> nat document \<Rightarrow> string \<Rightarrow> string \<Rightarrow> path_item option" where
  "path_item_at s d path verb =
     (case address_at d path verb of None \<Rightarrow> None | Some a \<Rightarrow> Some (s ! a))"

definition mutate_at ::
  "(path_item \<Rightarrow> path_item) \<Rightarrow> path_item store \<Rightarrow> nat document \<Rightarrow> string \<Rightarrow> string
     \<Rightarrow> path_item store" where
  "mutate_at f s d path verb =
     (case address_at d path verb of None \<Rightarrow> s | Some a \<Rightarrow> s[a := f (s ! a)])"

text \<open>
  What the conversion of a value returns when it succeeds, and when it succeeds:
  every dataclass instance inside, at any depth of fields, lists, tuples and
  dictionaries, becomes a dictionary, and every converted key of every dictionary
  must have a hash. \<open>plain\<close> is a value without a dataclass instance anywhere inside
  (the keys of its dictionaries having a hash, as in Python): the values the
  conversion only copies.
\<close>

fun converted :: "pyval \<Rightarrow> pyval" where
  "converted (PDataclass n fs) = PDict (map (\<lambda>(f, v). (PStr f, converted v)) fs)"
| "converted (PList xs) = PList (map converted xs)"
| "converted (PTuple xs) = PTuple (map converted xs)"
| "converted (PDict items) = PDict (map (\<lambda>(k, v). (converted k, converted v)) items)"
| "converted v = v"

fun convertible :: "pyval \<Rightarrow> bool" where
  "convertible (PDataclass n fs) = list_all (\<lambda>(f, v). convertible v) fs"
| "convertible (PList xs) = list_all convertible xs"
| "convertible (PTuple xs) = list_all convertible xs"
| "convertible (PDict items) =
     list_all (\<lambda>(k, v). convertible k \<and> convertible v \<and> hashable (converted k)) items"
| "convertible v = True"

fun plain :: "pyval \<Rightarrow> bool" where
  "plain (PDataclass n fs) = False"
| "plain (PList xs) = list_all plain xs"
| "plain (PTuple xs) = list_all plain xs"
| "plain (PDict items) = list_all (\<lambda>(k, v). plain k \<and> plain v \<and> hashable k) items"
| "plain v = True"

text \<open>
  The value of a document: every address replaced by the Path Item it refers to.
  \<open>addresses_below n\<close> says that all addresses in \<open>paths\<close> refer to the first \<open>n\<close>
  objects, and two states of the loop agree when they hold the same components
  and their paths have the same value. \<open>built_document\<close> is the value of what the
  builder returns.
\<close>

definition resolve_paths ::
  "'a store \<Rightarrow> (string \<times> (string \<times> nat) list) list \<Rightarrow> (string \<times> (string \<times> 'a) list) list" where
  "resolve_paths s ps = map (\<lambda>pv. (fst pv, map (\<lambda>va. (fst va, s ! snd va)) (snd pv))) ps"

definition addresses_below :: "nat \<Rightarrow> (string \<times> (string \<times> nat) list) list \<Rightarrow> bool" where
  "addresses_below n ps = (\<forall>pv \<in> set ps. \<forall>va \<in> set (snd pv). snd va < n)"

definition agree :: "accum \<Rightarrow> accum \<Rightarrow> bool" where
  "agree acc1 acc2 =
     (acc_schemas acc1 = acc_schemas acc2
      \<and> resolve_paths (acc_objects acc1) (acc_paths acc1)
          = resolve_paths (acc_objects acc2) (acc_paths acc2)
      \<and> addresses_below (length (acc_objects acc1)) (acc_paths acc1)
      \<and> addresses_below (length (acc_objects acc2)) (acc_paths acc2))"

definition built_document ::
  "(dict \<Rightarrow> dict) \<Rightarrow> Flask \<Rightarrow> FlaskSchema \<Rightarrow> path_item store \<Rightarrow> error + path_item document" where
  "built_document camelize app extension s =
     (case build_openapi_schema camelize app extension s of
        Inl e \<Rightarrow> Inl e
      | Inr (d, s') \<Rightarrow> Inr (resolve s' d))"




text \<open>
  The address stored under a verb of a path in the \<open>paths\<close> the loop has built so far.
\<close>

definition verb_address :: "(string \<times> (string \<times> nat) list) list \<Rightarrow> string \<Rightarrow> string \<Rightarrow> nat option" where
  "verb_address ps path verb =
     (case map_of ps path of None \<Rightarrow> None | Some verbs \<Rightarrow> map_of verbs verb)"

text \<open>
  A verb entry of a rule is overwritten when a rule that is processed later, is not
  hidden and has the same path key shows the same verb: the assignment
  \<^verbatim>\<open>paths[path][method.lower()] = path_object\<close> of the later rule replaces the entry.
\<close>

definition overwritten :: "Flask \<Rightarrow> Rule list \<Rightarrow> Rule \<Rightarrow> string \<Rightarrow> bool" where
  "overwritten app after r v =
     (\<exists>r' \<in> set after. \<not> hidden_rule app r' \<and> path_sub (rule r') = path_sub (rule r)
                        \<and> v \<in> set (emitted_verbs r'))"







section \<open>An example application\<close>

text \<open>
  Two models that share the sub-schema \<open>Error\<close>, with the fragments pydantic generates
  for them, a querystring model, three view functions and their rules. The view
  function that serves the document is hidden.
\<close>

definition Error_schema :: json where
  "Error_schema =
     JObj [(''title'', JStr ''Error''), (''type'', JStr ''object''),
           (''properties'',
            JObj [(''detail'', JObj [(''title'', JStr ''Detail''), (''type'', JStr ''string'')])]),
           (''required'', JArr [JStr ''detail''])]"

definition ModelA_stripped :: "string \<Rightarrow> dict" where
  "ModelA_stripped ref_prefix =
     [(''title'', JStr ''ModelA''), (''type'', JStr ''object''),
      (''properties'',
       JObj [(''name'', JObj [(''title'', JStr ''Name''), (''type'', JStr ''string'')]),
             (''error'', JObj [(''$ref'', JStr (ref_prefix @ ''Error''))])])]"

definition ModelB_stripped :: "string \<Rightarrow> dict" where
  "ModelB_stripped ref_prefix =
     [(''title'', JStr ''ModelB''), (''type'', JStr ''object''),
      (''properties'', JObj [(''error'', JObj [(''$ref'', JStr (ref_prefix @ ''Error''))])]),
      (''required'', JArr [JStr ''error''])]"

definition ModelA :: model_class where
  "ModelA =
     \<lparr>model_doc = Some ''An item.'',
      model_schema = (\<lambda>ref_prefix.
        Inr (ModelA_stripped ref_prefix @ [(''definitions'', JObj [(''Error'', Error_schema)])]))\<rparr>"

definition ModelB :: model_class where
  "ModelB =
     \<lparr>model_doc = None,
      model_schema = (\<lambda>ref_prefix.
        Inr (ModelB_stripped ref_prefix @ [(''definitions'', JObj [(''Error'', Error_schema)])]))\<rparr>"

definition Query :: model_class where
  "Query =
     \<lparr>model_doc = None,
      model_schema = (\<lambda>ref_prefix. Inr
        [(''title'', JStr ''Query''), (''type'', JStr ''object''),
         (''properties'',
          JObj [(''limit'', JObj [(''title'', JStr ''Limit''), (''type'', JStr ''integer'')])])])\<rparr>"

definition get_item_view :: view_function where
  "get_item_view =
     \<lparr>func_doc = Some (''Get one item.'' @ [CHR 0x0A, CHR 0x0A] @ ''Longer text.''
                        @ [CHR 0x0A] @ ''The end.''),
      flask_schema_hidden = None,
      flask_schema_response = Some [(200, ModelA), (404, ModelB)],
      flask_schema_request = None,
      flask_schema_querystring = None\<rparr>"

definition list_items_view :: view_function where
  "list_items_view =
     \<lparr>func_doc = None, flask_schema_hidden = None, flask_schema_response = None,
      flask_schema_request = Some (ModelA, JSON), flask_schema_querystring = Some Query\<rparr>"

definition openapi_view :: view_function where
  "openapi_view =
     hide_route \<lparr>func_doc = Some [], flask_schema_hidden = None,
                 flask_schema_response = Some [(200, ModelB)],
                 flask_schema_request = None, flask_schema_querystring = None\<rparr>"

definition item_rule :: Rule where
  "item_rule =
     \<lparr>rule = ''/items/<int:item_id>'', endpoint = ''get_item'',
      methods = [''GET'', ''HEAD'', ''OPTIONS''], provide_automatic_options = True,
      converters = [(''item_id'', ''int'')]\<rparr>"

definition items_rule :: Rule where
  "items_rule =
     \<lparr>rule = ''/items'', endpoint = ''list_items'',
      methods = [''GET'', ''POST'', ''HEAD'', ''OPTIONS''], provide_automatic_options = True,
      converters = []\<rparr>"

definition openapi_rule :: Rule where
  "openapi_rule =
     \<lparr>rule = ''/openapi.json'', endpoint = ''openapi'',
      methods = [''GET'', ''HEAD'', ''OPTIONS''], provide_automatic_options = True,
      converters = []\<rparr>"

definition demo_app :: Flask where
  "demo_app =
     \<lparr>url_map = [openapi_rule, items_rule, item_rule],
      view_functions = [(''openapi'', openapi_view), (''list_items'', list_items_view),
                        (''get_item'', get_item_view)]\<rparr>"

definition demo_extension :: FlaskSchema where
  "demo_extension =
     \<lparr>title = Some ''demo'', version = ''0.1.0'', tags = [], convert_casing = False,
      servers = Some []\<rparr>"

text \<open>The document of the example and the Path Item objects it refers to.\<close>

definition demo_document :: "nat document" where
  "demo_document =
     \<lparr>openapi = ''3.0.3'', info_title = Some ''demo'', info_version = ''0.1.0'',
      components_schemas = [(JStr ''Error'', Error_schema)],
      paths = [(''/items'', [(''get'', 0), (''post'', 0)]), (''/items/{item_id}'', [(''get'', 1)])],
      doc_tags = [], doc_servers = Some []\<rparr>"

definition demo_objects :: "path_item store" where
  "demo_objects =
     [\<lparr>parameters =
         [JObj [(''name'', JStr ''limit''), (''in'', JStr ''query''),
                (''schema'', JObj [(''title'', JStr ''Limit''), (''type'', JStr ''integer'')])]],
       responses = [], description = None, summary = None,
       requestBody =
         Some (JObj [(''content'',
                      JObj [(''application/json'',
                             JObj [(''schema'', JObj (ModelA_stripped ''#/components/schemas/''))])])])\<rparr>,
      \<lparr>parameters = [JObj [(''name'', JStr ''item_id''), (''in'', JStr ''path'')]],
       responses =
         [(200, response_object (ModelA_stripped ''#/components/schemas/'') (Some ''An item.'')),
          (404, response_object (ModelB_stripped ''#/components/schemas/'') None)],
       description = Some ([CHR 0x0A] @ ''Longer text.'' @ [CHR 0x0A] @ ''The end.''),
       summary = Some ''Get one item.'',
       requestBody = None\<rparr>]"

text \<open>
  A second application: two rules with different patterns and the same path key
  \<^verbatim>\<open>/s/{x}\<close>, the first under GET, POST and PUT, the second under GET, with view
  functions that carry no annotation; \<open>same_path_document\<close> is the document the builder
  returns for it, over a store of two Path Item objects of value \<open>bare_item\<close>.
\<close>

definition first_rule :: Rule where
  "first_rule =
     \<lparr>rule = ''/s/<x>'', endpoint = ''first'',
      methods = [''GET'', ''POST'', ''PUT'', ''HEAD'', ''OPTIONS''], provide_automatic_options = True,
      converters = [(''x'', ''default'')]\<rparr>"

definition second_rule :: Rule where
  "second_rule =
     \<lparr>rule = ''/s/<string:x>'', endpoint = ''second'',
      methods = [''GET'', ''HEAD'', ''OPTIONS''], provide_automatic_options = True,
      converters = [(''x'', ''string'')]\<rparr>"

definition bare_view :: view_function where
  "bare_view =
     \<lparr>func_doc = None, flask_schema_hidden = None, flask_schema_response = None,
      flask_schema_request = None, flask_schema_querystring = None\<rparr>"

definition same_path_app :: Flask where
  "same_path_app =
     \<lparr>url_map = [first_rule, second_rule],
      view_functions = [(''first'', bare_view), (''second'', bare_view)]\<rparr>"

definition bare_item :: path_item where
  "bare_item = \<lparr>parameters = [JObj [(''name'', JStr ''x''), (''in'', JStr ''path'')]],
                  responses = [], description = None, summary = None, requestBody = None\<rparr>"

definition same_path_document :: "nat document" where
  "same_path_document =
     \<lparr>openapi = ''3.0.3'', info_title = Some ''demo'', info_version = ''0.1.0'',
      components_schemas = [],
      paths = [(''/s/{x}'', [(''get'', 1), (''post'', 0), (''put'', 0)])],
      doc_tags = [], doc_servers = Some []\<rparr>"












section \<open>Properties of splitting\<close>

lemma split_definitions_obj_value:
  assumes "a < length s"
  shows "split_definitions_obj s a =
           ((fst (split_definitions (s ! a)), length s),
            s @ [snd (split_definitions (s ! a))])"
  using assms
  by (simp add: split_definitions_obj_def split_definitions_def dict_copy_def dict_pop_def
      alloc_def nth_append Let_def)

text \<open>
  C8: splitting returns the value under the key \<open>definitions\<close>, or an empty mapping when
  the key is absent, together with the fragment without that key: the stripped fragment
  has no \<open>definitions\<close> key, its other entries are those of the argument, each with its
  value and in the same order.
\<close>

theorem split_definitions_spec:
  "fst (split_definitions schema) =
     (case map_of schema ''definitions'' of None \<Rightarrow> JObj [] | Some d \<Rightarrow> d)
   \<and> snd (split_definitions schema) = filter (\<lambda>kv. fst kv \<noteq> ''definitions'') schema
   \<and> ''definitions'' \<notin> fst ` set (snd (split_definitions schema))
   \<and> map_of (snd (split_definitions schema)) ''definitions'' = None
   \<and> (\<forall>k. k \<noteq> ''definitions'' \<longrightarrow>
          map_of (snd (split_definitions schema)) k = map_of schema k)"
proof -
  have del: "AList.delete ''definitions'' schema = filter (\<lambda>kv. fst kv \<noteq> ''definitions'') schema"
    by (induction schema) auto
  have "map_of (AList.delete ''definitions'' schema) ''definitions'' = None"
    by (simp add: delete_conv')
  then show ?thesis
    by (simp add: split_definitions_def Let_def del [symmetric] delete_notin_dom)
qed

theorem split_definitions_spec_witness:
  "split_definitions
     [(''title'', JStr ''A''), (''definitions'', JObj [(''Error'', JObj [])]), (''type'', JStr ''object'')]
   = (JObj [(''Error'', JObj [])], [(''title'', JStr ''A''), (''type'', JStr ''object'')])
   \<and> split_definitions [(''type'', JStr ''object'')] = (JObj [], [(''type'', JStr ''object'')])"
  using split_definitions_spec
    [of "[(''title'', JStr ''A''), (''definitions'', JObj [(''Error'', JObj [])]), (''type'', JStr ''object'')]"]
    split_definitions_spec [of "[(''type'', JStr ''object'')]"]
  by (simp add: prod_eq_iff)

text \<open>
  C10: splitting works on a copy. The object passed in, and every other object that
  existed before the call, has the same entries afterwards, the \<open>definitions\<close> entry
  included; the fragment returned is a new object.
\<close>

theorem split_definitions_keeps_argument:
  assumes "a < length s"
    and "split_definitions_obj s a = ((definitions, new_schema), s')"
  shows "s' ! a = s ! a
       \<and> map_of (s' ! a) ''definitions'' = map_of (s ! a) ''definitions''
       \<and> (\<forall>b < length s. s' ! b = s ! b)
       \<and> new_schema \<noteq> a \<and> new_schema = length s
       \<and> s' ! new_schema = snd (split_definitions (s ! a))"
  using assms by (auto simp add: split_definitions_obj_value nth_append)

theorem split_definitions_keeps_argument_witness:
  "split_definitions_obj [[(''definitions'', JObj [(''E'', JNull)]), (''type'', JStr ''object'')]] 0
     = ((JObj [(''E'', JNull)], 1),
        [[(''definitions'', JObj [(''E'', JNull)]), (''type'', JStr ''object'')],
         [(''type'', JStr ''object'')]])
   \<and> map_of ([[(''definitions'', JObj [(''E'', JNull)]), (''type'', JStr ''object'')],
         [(''type'', JStr ''object'')]] ! 0) ''definitions'' = Some (JObj [(''E'', JNull)])"
proof -
  let ?s = "[[(''definitions'', JObj [(''E'', JNull)]), (''type'', JStr ''object'')]]"
  have e: "split_definitions_obj ?s 0
     = ((JObj [(''E'', JNull)], 1),
        [[(''definitions'', JObj [(''E'', JNull)]), (''type'', JStr ''object'')],
         [(''type'', JStr ''object'')]])"
    by (simp add: split_definitions_obj_def dict_copy_def dict_pop_def alloc_def)
  have l: "0 < length ?s" by simp
  from split_definitions_keeps_argument [OF l e] e show ?thesis by simp
qed

section \<open>Properties of the builder\<close>

lemma bindE_Inr_iff: "bindE m f = Inr y \<longleftrightarrow> (\<exists>x. m = Inr x \<and> f x = Inr y)"
  by (cases m) (simp_all add: bindE_def)

lemma bindE_simps [simp]: "bindE (Inl e) f = Inl e" "bindE (Inr x) f = f x"
  by (simp_all add: bindE_def)

text \<open>The example application evaluates to the example document.\<close>

lemmas eval_defs =
  build_openapi_schema_def process_rule_def build_path_object_def doc_lines_def
  query_parameters_def request_body_def model_fragment_def update_mapping_def
  split_definitions_def response_object_def path_parameters_def
  add_route_def add_methods_def alloc_def getattr_def hide_route_def REF_PREFIX_def
  splitlines_def linebreak_def lower_def lower_char_def uppercase_def lowercase_def
  match_placeholder_def group_name_def Let_def

lemmas demo_defs =
  demo_app_def demo_extension_def item_rule_def items_rule_def openapi_rule_def
  get_item_view_def list_items_view_def openapi_view_def ModelA_def ModelB_def Query_def
  ModelA_stripped_def ModelB_stripped_def

lemma demo_build:
  "build_openapi_schema (\<lambda>d. d) demo_app demo_extension [] = Inr (demo_document, demo_objects)"
  by (simp add: eval_defs demo_defs demo_document_def demo_objects_def)

lemma demo_url_map: "url_map demo_app = [openapi_rule, items_rule, item_rule]"
  by (simp add: demo_app_def)

lemma demo_paths:
  "path_sub (rule openapi_rule) = ''/openapi.json''"
  "path_sub (rule items_rule) = ''/items''"
  "path_sub (rule item_rule) = ''/items/{item_id}''"
  by (simp_all add: openapi_rule_def items_rule_def item_rule_def match_placeholder_def
      group_name_def)

lemma demo_hidden:
  "hidden_rule demo_app openapi_rule"
  "\<not> hidden_rule demo_app items_rule"
  "\<not> hidden_rule demo_app item_rule"
  by (simp_all add: hidden_rule_def demo_defs getattr_def hide_route_def)

lemma demo_verbs:
  "emitted_verbs items_rule = [''get'', ''post'']"
  "emitted_verbs item_rule = [''get'']"
  by (simp_all add: emitted_verbs_def items_rule_def item_rule_def lower_def lower_char_def
      uppercase_def lowercase_def)

lemma fold_update_filter:
  "fold (\<lambda>m vs. if P m then vs else AList.update (f m) a vs) ms vs
     = fold (\<lambda>k vs. AList.update k a vs) (map f (filter (\<lambda>m. \<not> P m) ms)) vs"
  by (induction ms arbitrary: vs) simp_all

lemma add_methods_emitted:
  "add_methods a r vs = fold (\<lambda>k vs. AList.update k a vs) (emitted_verbs r) vs"
  unfolding add_methods_def emitted_verbs_def
  using fold_update_filter [of "\<lambda>m. m = ''HEAD'' \<or> (m = ''OPTIONS'' \<and> provide_automatic_options r)" lower a "methods r" vs]
  by simp

lemma map_of_fold_update:
  "map_of (fold (\<lambda>k vs. AList.update k a vs) ks vs) k = (if k \<in> set ks then Some a else map_of vs k)"
  by (induction ks arbitrary: vs) (auto simp add: update_conv')

lemma keys_fold_update:
  "fst ` set (fold (\<lambda>k vs. AList.update k a vs) ks vs) = fst ` set vs \<union> set ks"
  by (induction ks arbitrary: vs) (auto simp add: dom_update)

lemma map_of_add_methods:
  "map_of (add_methods a r vs) k = (if k \<in> set (emitted_verbs r) then Some a else map_of vs k)"
  by (simp add: add_methods_emitted map_of_fold_update)

lemma keys_add_methods:
  "fst ` set (add_methods a r vs) = fst ` set vs \<union> set (emitted_verbs r)"
  by (simp add: add_methods_emitted keys_fold_update)

lemma map_of_add_route:
  "map_of (add_route a r ps) p =
     (if p = path_sub (rule r)
      then Some (add_methods a r (case map_of ps p of None \<Rightarrow> [] | Some vs \<Rightarrow> vs))
      else map_of ps p)"
  by (simp add: add_route_def Let_def update_conv')

lemma keys_add_route:
  "fst ` set (add_route a r ps) = insert (path_sub (rule r)) (fst ` set ps)"
  by (simp add: add_route_def Let_def dom_update)

lemma process_rule_hidden:
  "hidden_rule app r \<Longrightarrow> process_rule cz app ext r acc = Inr acc"
  by (auto simp add: hidden_rule_def process_rule_def split: option.splits)

lemma process_rule_visible:
  assumes "\<not> hidden_rule app r" and "process_rule cz app ext r acc = Inr acc'"
  shows "\<exists>func schemas item.
           map_of (view_functions app) (endpoint r) = Some func
         \<and> build_path_object cz ext func r (acc_schemas acc) = Inr (schemas, item)
         \<and> acc' = \<lparr>acc_objects = acc_objects acc @ [item], acc_schemas = schemas,
                   acc_paths = add_route (length (acc_objects acc)) r (acc_paths acc)\<rparr>"
  using assms
  by (auto simp add: hidden_rule_def process_rule_def alloc_def bindE_Inr_iff split: option.splits if_splits)

lemma for_rules_append:
  "for_rules cz app ext (xs @ ys) acc = bindE (for_rules cz app ext xs acc) (for_rules cz app ext ys)"
  by (induction xs arbitrary: acc) (auto simp add: bindE_def split: sum.splits)

lemma for_rules_filter_hidden:
  "for_rules cz app ext rs acc = for_rules cz app ext (filter (\<lambda>r. \<not> hidden_rule app r) rs) acc"
  by (induction rs arbitrary: acc) (auto simp add: process_rule_hidden bindE_def split: sum.splits)

lemma verbs_at_add_route:
  "verbs_at (add_route a r ps) p =
     (if p = path_sub (rule r) then verbs_at ps p \<union> set (emitted_verbs r) else verbs_at ps p)"
  by (auto simp add: verbs_at_def map_of_add_route keys_add_methods split: option.splits)

lemma process_rule_paths:
  assumes "process_rule cz app ext r acc = Inr acc'"
  shows "fst ` set (acc_paths acc') =
           fst ` set (acc_paths acc) \<union> (if hidden_rule app r then {} else {path_sub (rule r)})"
    and "verbs_at (acc_paths acc') p =
           verbs_at (acc_paths acc) p \<union>
             (if \<not> hidden_rule app r \<and> path_sub (rule r) = p then set (emitted_verbs r) else {})"
proof -
  show "fst ` set (acc_paths acc') =
           fst ` set (acc_paths acc) \<union> (if hidden_rule app r then {} else {path_sub (rule r)})"
  proof (cases "hidden_rule app r")
    case True
    with assms show ?thesis by (simp add: process_rule_hidden)
  next
    case False
    from process_rule_visible [OF False assms] obtain func schemas item where
      "acc' = \<lparr>acc_objects = acc_objects acc @ [item], acc_schemas = schemas,
                   acc_paths = add_route (length (acc_objects acc)) r (acc_paths acc)\<rparr>"
      by blast
    with False show ?thesis by (simp add: keys_add_route)
  qed
  show "verbs_at (acc_paths acc') p =
           verbs_at (acc_paths acc) p \<union>
             (if \<not> hidden_rule app r \<and> path_sub (rule r) = p then set (emitted_verbs r) else {})"
  proof (cases "hidden_rule app r")
    case True
    with assms show ?thesis by (simp add: process_rule_hidden)
  next
    case False
    from process_rule_visible [OF False assms] obtain func schemas item where
      "acc' = \<lparr>acc_objects = acc_objects acc @ [item], acc_schemas = schemas,
                   acc_paths = add_route (length (acc_objects acc)) r (acc_paths acc)\<rparr>"
      by blast
    with False show ?thesis by (simp add: verbs_at_add_route)
  qed
qed

lemma for_rules_paths:
  assumes "for_rules cz app ext rs acc = Inr acc'"
  shows "fst ` set (acc_paths acc') =
           fst ` set (acc_paths acc) \<union> {path_sub (rule r) | r. r \<in> set rs \<and> \<not> hidden_rule app r}
       \<and> verbs_at (acc_paths acc') p =
           verbs_at (acc_paths acc) p \<union>
             (\<Union>r \<in> {r \<in> set rs. \<not> hidden_rule app r \<and> path_sub (rule r) = p}. set (emitted_verbs r))"
  using assms
proof (induction rs arbitrary: acc)
  case Nil
  then show ?case by simp
next
  case (Cons r rs)
  from Cons.prems obtain acc1 where
    1: "process_rule cz app ext r acc = Inr acc1" and 2: "for_rules cz app ext rs acc1 = Inr acc'"
    by (auto simp add: bindE_Inr_iff)
  from Cons.IH [OF 2] process_rule_paths(1) [OF 1] process_rule_paths(2) [OF 1, of p] show ?case
    by (auto split: if_splits)
qed

lemma build_Inr:
  "build_openapi_schema cz app ext s = Inr (doc, s') \<longleftrightarrow>
     (\<exists>acc. for_rules cz app ext (url_map app)
              \<lparr>acc_objects = s, acc_schemas = [], acc_paths = []\<rparr> = Inr acc
          \<and> doc = \<lparr>openapi = ''3.0.3'', info_title = title ext, info_version = version ext,
                    components_schemas = acc_schemas acc, paths = acc_paths acc,
                    doc_tags = tags ext, doc_servers = servers ext\<rparr>
          \<and> s' = acc_objects acc)"
  by (auto simp add: build_openapi_schema_def bindE_Inr_iff)

lemma get_head_options:
  "set (methods r) = {''GET'', ''HEAD'', ''OPTIONS''} \<Longrightarrow> provide_automatic_options r
     \<Longrightarrow> set (emitted_verbs r) = {''get''}"
proof -
  assume m: "set (methods r) = {''GET'', ''HEAD'', ''OPTIONS''}" and a: "provide_automatic_options r"
  have l: "lower ''GET'' = ''get''"
    by (simp add: lower_def lower_char_def uppercase_def lowercase_def)
  have "{x \<in> set (methods r). x \<noteq> ''HEAD'' \<and> \<not> (x = ''OPTIONS'' \<and> provide_automatic_options r)} = {''GET''}"
    using a by (auto simp add: m)
  then show ?thesis
    by (simp add: emitted_verbs_def l)
qed

text \<open>
  C2: in a document that was built, the path of every rule that is not hidden is a key
  of \<open>paths\<close>, and the verbs under it are the lowercase methods, without \<open>HEAD\<close> and
  without an automatic \<open>OPTIONS\<close>, of the rules that are not hidden and have this path;
  of the rule alone when no other one shares the path. Methods \<open>GET\<close>, \<open>HEAD\<close> and
  \<open>OPTIONS\<close> with automatic options give the verb \<open>get\<close> and nothing else.
\<close>

theorem verbs_emitted:
  assumes "build_openapi_schema cz app ext s = Inr (doc, s')"
    and "r \<in> set (url_map app)" and "\<not> hidden_rule app r"
  shows "path_sub (rule r) \<in> fst ` set (paths doc)
       \<and> set (emitted_verbs r) \<subseteq> verbs_at (paths doc) (path_sub (rule r))
       \<and> verbs_at (paths doc) (path_sub (rule r)) =
           (\<Union>r' \<in> {r' \<in> set (url_map app).
                       \<not> hidden_rule app r' \<and> path_sub (rule r') = path_sub (rule r)}.
              set (emitted_verbs r'))
       \<and> ((\<forall>r' \<in> set (url_map app).
              \<not> hidden_rule app r' \<and> path_sub (rule r') = path_sub (rule r) \<longrightarrow> r' = r)
            \<longrightarrow> verbs_at (paths doc) (path_sub (rule r)) = set (emitted_verbs r))
       \<and> (set (methods r) = {''GET'', ''HEAD'', ''OPTIONS''} \<and> provide_automatic_options r
            \<longrightarrow> set (emitted_verbs r) = {''get''})"
proof -
  from assms(1) obtain acc where
    f: "for_rules cz app ext (url_map app) \<lparr>acc_objects = s, acc_schemas = [], acc_paths = []\<rparr> = Inr acc"
    and p: "paths doc = acc_paths acc"
    by (auto simp add: build_Inr)
  let ?p = "path_sub (rule r)"
  let ?same = "{r' \<in> set (url_map app). \<not> hidden_rule app r' \<and> path_sub (rule r') = ?p}"
  from for_rules_paths [OF f, of ?p] have
    keys: "fst ` set (paths doc) = {path_sub (rule r) | r. r \<in> set (url_map app) \<and> \<not> hidden_rule app r}"
    and verbs: "verbs_at (paths doc) ?p = (\<Union>r' \<in> ?same. set (emitted_verbs r'))"
    by (simp_all add: p verbs_at_def)
  from keys assms(2,3) have 1: "?p \<in> fst ` set (paths doc)" by auto
  from assms(2,3) have "r \<in> ?same" by simp
  then have 2: "set (emitted_verbs r) \<subseteq> verbs_at (paths doc) ?p"
    unfolding verbs by blast
  have 3: "verbs_at (paths doc) ?p = set (emitted_verbs r)"
    if "\<forall>r' \<in> set (url_map app). \<not> hidden_rule app r' \<and> path_sub (rule r') = ?p \<longrightarrow> r' = r"
  proof -
    from that assms(2,3) have "?same = {r}" by auto
    then show ?thesis unfolding verbs by simp
  qed
  from 1 2 3 verbs get_head_options [of r] show ?thesis by blast
qed

theorem verbs_emitted_witness:
  "item_rule \<in> set (url_map demo_app) \<and> \<not> hidden_rule demo_app item_rule
   \<and> set (methods item_rule) = {''GET'', ''HEAD'', ''OPTIONS''}
   \<and> provide_automatic_options item_rule
   \<and> ''/items/{item_id}'' \<in> fst ` set (paths demo_document)
   \<and> verbs_at (paths demo_document) ''/items/{item_id}'' = {''get''}"
proof -
  have m: "item_rule \<in> set (url_map demo_app)" by (simp add: demo_url_map)
  have u: "\<forall>r' \<in> set (url_map demo_app).
             \<not> hidden_rule demo_app r' \<and> path_sub (rule r') = path_sub (rule item_rule) \<longrightarrow> r' = item_rule"
    by (simp add: demo_url_map demo_paths demo_hidden)
  have g: "set (methods item_rule) = {''GET'', ''HEAD'', ''OPTIONS''} \<and> provide_automatic_options item_rule"
    by (simp add: item_rule_def)
  from verbs_emitted [OF demo_build m demo_hidden(3)] u g
  have "path_sub (rule item_rule) \<in> fst ` set (paths demo_document)
      \<and> verbs_at (paths demo_document) (path_sub (rule item_rule)) = {''get''}"
    by metis
  with g m demo_hidden(3) show ?thesis
    by (simp add: demo_paths)
qed

lemma process_rule_url_map:
  "process_rule cz (app\<lparr>url_map := rs\<rparr>) ext r acc = process_rule cz app ext r acc"
  by (simp add: process_rule_def)

lemma for_rules_url_map:
  "for_rules cz (app\<lparr>url_map := rs'\<rparr>) ext rs acc = for_rules cz app ext rs acc"
  by (induction rs arbitrary: acc) (simp_all add: process_rule_url_map bindE_def split: sum.splits)

lemma for_rules_all_hidden:
  "\<forall>r \<in> set rs. hidden_rule app r \<Longrightarrow> for_rules cz app ext rs acc = Inr acc"
  by (induction rs) (simp_all add: process_rule_hidden)

text \<open>
  C5: hidden rules add nothing. The builder returns what it returns for the
  application without its hidden rules, whatever their view functions carry; when all
  rules are hidden, \<open>paths\<close> and the component table are empty; the keys of \<open>paths\<close> are
  the paths of the rules that are not hidden. A view function marked by \<open>hide_route\<close>
  is hidden, one without the attribute is not.
\<close>

theorem hidden_routes_excluded:
  "build_openapi_schema cz app ext s =
     build_openapi_schema cz (app\<lparr>url_map := filter (\<lambda>r. \<not> hidden_rule app r) (url_map app)\<rparr>) ext s
   \<and> ((\<forall>r \<in> set (url_map app). hidden_rule app r) \<longrightarrow>
        (\<exists>doc. build_openapi_schema cz app ext s = Inr (doc, s)
               \<and> paths doc = [] \<and> components_schemas doc = []))
   \<and> (\<forall>doc s'. build_openapi_schema cz app ext s = Inr (doc, s') \<longrightarrow>
        fst ` set (paths doc) =
          {path_sub (rule r) | r. r \<in> set (url_map app) \<and> \<not> hidden_rule app r})
   \<and> getattr (flask_schema_hidden (hide_route func)) False
   \<and> (flask_schema_hidden func = None \<longrightarrow> \<not> getattr (flask_schema_hidden func) False)
   \<and> (map_of (view_functions app) (endpoint r) = Some func \<longrightarrow>
        hidden_rule app r = getattr (flask_schema_hidden func) False)"
proof -
  have 1: "build_openapi_schema cz app ext s =
     build_openapi_schema cz (app\<lparr>url_map := filter (\<lambda>r. \<not> hidden_rule app r) (url_map app)\<rparr>) ext s"
    unfolding build_openapi_schema_def
    by (simp add: for_rules_url_map for_rules_filter_hidden [symmetric])
  have 2: "\<exists>doc. build_openapi_schema cz app ext s = Inr (doc, s)
               \<and> paths doc = [] \<and> components_schemas doc = []"
    if "\<forall>r \<in> set (url_map app). hidden_rule app r"
    using that by (simp add: build_openapi_schema_def for_rules_all_hidden)
  have 3: "fst ` set (paths doc) =
          {path_sub (rule r) | r. r \<in> set (url_map app) \<and> \<not> hidden_rule app r}"
    if "build_openapi_schema cz app ext s = Inr (doc, s')" for doc s'
  proof -
    from that obtain acc where
      f: "for_rules cz app ext (url_map app) \<lparr>acc_objects = s, acc_schemas = [], acc_paths = []\<rparr> = Inr acc"
      and p: "paths doc = acc_paths acc"
      by (auto simp add: build_Inr)
    from for_rules_paths [OF f, of "[]"] show ?thesis by (simp add: p)
  qed
  have 4: "getattr (flask_schema_hidden (hide_route func)) False"
    by (simp add: hide_route_def getattr_def)
  have 5: "flask_schema_hidden func = None \<Longrightarrow> \<not> getattr (flask_schema_hidden func) False"
    by (simp add: getattr_def)
  have 6: "map_of (view_functions app) (endpoint r) = Some func \<Longrightarrow>
        hidden_rule app r = getattr (flask_schema_hidden func) False"
    by (simp add: hidden_rule_def)
  from 1 2 3 4 5 6 show ?thesis by blast
qed

theorem hidden_routes_excluded_witness:
  "hidden_rule demo_app openapi_rule
   \<and> openapi_rule \<in> set (url_map demo_app)
   \<and> fst ` set (paths demo_document) = {''/items'', ''/items/{item_id}''}
   \<and> ''/openapi.json'' \<notin> fst ` set (paths demo_document)
   \<and> build_openapi_schema (\<lambda>d. d) (demo_app\<lparr>url_map := [items_rule, item_rule]\<rparr>) demo_extension []
       = Inr (demo_document, demo_objects)"
proof -
  have f: "filter (\<lambda>r. \<not> hidden_rule demo_app r) (url_map demo_app) = [items_rule, item_rule]"
    by (simp add: demo_url_map demo_hidden)
  have "{path_sub (rule r) | r. r \<in> set (url_map demo_app) \<and> \<not> hidden_rule demo_app r}
          = (\<lambda>r. path_sub (rule r)) ` set (filter (\<lambda>r. \<not> hidden_rule demo_app r) (url_map demo_app))"
    by auto
  then have k: "{path_sub (rule r) | r. r \<in> set (url_map demo_app) \<and> \<not> hidden_rule demo_app r}
             = {''/items'', ''/items/{item_id}''}"
    by (simp add: f demo_paths)
  from hidden_routes_excluded
    [of "\<lambda>d. d" demo_app demo_extension "[]" "hide_route get_item_view" openapi_rule]
    demo_build f k demo_hidden(1)
  show ?thesis
    by (simp add: demo_url_map)
qed

lemma process_rule_objects:
  "process_rule cz app ext r acc = Inr acc' \<Longrightarrow> \<exists>new. acc_objects acc' = acc_objects acc @ new"
  by (cases "hidden_rule app r") (auto simp add: process_rule_hidden dest: process_rule_visible)

lemma for_rules_objects:
  "for_rules cz app ext rs acc = Inr acc' \<Longrightarrow> \<exists>new. acc_objects acc' = acc_objects acc @ new"
proof (induction rs arbitrary: acc)
  case Nil
  then show ?case by simp
next
  case (Cons r rs)
  from Cons.prems obtain acc1 where
    1: "process_rule cz app ext r acc = Inr acc1" and 2: "for_rules cz app ext rs acc1 = Inr acc'"
    by (auto simp add: bindE_Inr_iff)
  from process_rule_objects [OF 1] Cons.IH [OF 2] show ?case by auto
qed

lemma process_rule_objects_length:
  "process_rule cz app ext r acc = Inr acc' \<Longrightarrow>
     length (acc_objects acc') = length (acc_objects acc) + (if hidden_rule app r then 0 else 1)"
  by (cases "hidden_rule app r") (auto simp add: process_rule_hidden dest: process_rule_visible)

lemma for_rules_objects_length:
  "for_rules cz app ext rs acc = Inr acc' \<Longrightarrow>
     length (acc_objects acc') =
       length (acc_objects acc) + length (filter (\<lambda>r. \<not> hidden_rule app r) rs)"
proof (induction rs arbitrary: acc)
  case Nil
  then show ?case by simp
next
  case (Cons r rs)
  from Cons.prems obtain acc1 where
    1: "process_rule cz app ext r acc = Inr acc1" and 2: "for_rules cz app ext rs acc1 = Inr acc'"
    by (auto simp add: bindE_Inr_iff)
  from process_rule_objects_length [OF 1] Cons.IH [OF 2] show ?case by simp
qed

lemma verb_address_add_route:
  "verb_address (add_route a r ps) p v =
     (if p = path_sub (rule r) \<and> v \<in> set (emitted_verbs r) then Some a else verb_address ps p v)"
  by (simp add: verb_address_def map_of_add_route map_of_add_methods split: option.splits)

lemma process_rule_other_verb:
  assumes "process_rule cz app ext r acc = Inr acc'"
    and "\<not> (\<not> hidden_rule app r \<and> path_sub (rule r) = p \<and> v \<in> set (emitted_verbs r))"
  shows "verb_address (acc_paths acc') p v = verb_address (acc_paths acc) p v"
proof (cases "hidden_rule app r")
  case True
  with assms show ?thesis by (simp add: process_rule_hidden)
next
  case False
  from process_rule_visible [OF False assms(1)] obtain schemas item where
    "acc' = \<lparr>acc_objects = acc_objects acc @ [item], acc_schemas = schemas,
             acc_paths = add_route (length (acc_objects acc)) r (acc_paths acc)\<rparr>"
    by blast
  with assms(2) False show ?thesis
    by (auto simp add: verb_address_add_route)
qed

lemma for_rules_other_verb:
  assumes "for_rules cz app ext rs acc = Inr acc'"
    and "\<forall>r \<in> set rs. \<not> (\<not> hidden_rule app r \<and> path_sub (rule r) = p \<and> v \<in> set (emitted_verbs r))"
  shows "verb_address (acc_paths acc') p v = verb_address (acc_paths acc) p v"
  using assms
proof (induction rs arbitrary: acc)
  case Nil
  then show ?case by simp
next
  case (Cons r rs)
  from Cons.prems(1) obtain acc1 where
    1: "process_rule cz app ext r acc = Inr acc1" and 2: "for_rules cz app ext rs acc1 = Inr acc'"
    by (auto simp add: bindE_Inr_iff)
  from Cons.prems(2) have a: "\<not> (\<not> hidden_rule app r \<and> path_sub (rule r) = p \<and> v \<in> set (emitted_verbs r))"
    and b: "\<forall>r \<in> set rs. \<not> (\<not> hidden_rule app r \<and> path_sub (rule r) = p \<and> v \<in> set (emitted_verbs r))"
    by simp_all
  from process_rule_other_verb [OF 1 a] Cons.IH [OF 2 b] show ?case by simp
qed

lemma rule_address:
  assumes "build_openapi_schema cz app ext s = Inr (doc, s')"
    and "url_map app = before @ r # after"
    and "\<not> hidden_rule app r"
    and "v \<in> set (emitted_verbs r)"
    and "\<forall>r' \<in> set after. \<not> (\<not> hidden_rule app r' \<and> path_sub (rule r') = path_sub (rule r)
            \<and> v \<in> set (emitted_verbs r'))"
  shows "address_at doc (path_sub (rule r)) v
           = Some (length s + length (filter (\<lambda>r'. \<not> hidden_rule app r') before))"
    and "length s + length (filter (\<lambda>r'. \<not> hidden_rule app r') before) < length s'"
proof -
  let ?p = "path_sub (rule r)"
  from assms(1) obtain acc where
    f: "for_rules cz app ext (url_map app) \<lparr>acc_objects = s, acc_schemas = [], acc_paths = []\<rparr> = Inr acc"
    and p: "paths doc = acc_paths acc" and s': "s' = acc_objects acc"
    by (auto simp add: build_Inr)
  from f obtain acc1 acc2 where
    1: "for_rules cz app ext before \<lparr>acc_objects = s, acc_schemas = [], acc_paths = []\<rparr> = Inr acc1"
    and 2: "process_rule cz app ext r acc1 = Inr acc2"
    and 3: "for_rules cz app ext after acc2 = Inr acc"
    by (auto simp add: assms(2) for_rules_append bindE_Inr_iff)
  let ?a = "length (acc_objects acc1)"
  from for_rules_objects_length [OF 1]
  have a: "?a = length s + length (filter (\<lambda>r'. \<not> hidden_rule app r') before)" by simp
  from process_rule_visible [OF assms(3) 2] obtain schemas item where
    acc2: "acc2 = \<lparr>acc_objects = acc_objects acc1 @ [item], acc_schemas = schemas,
                   acc_paths = add_route ?a r (acc_paths acc1)\<rparr>"
    by blast
  from for_rules_objects_length [OF 3] have "?a < length s'" by (simp add: acc2 s')
  with a show "length s + length (filter (\<lambda>r'. \<not> hidden_rule app r') before) < length s'" by simp
  from for_rules_other_verb [OF 3 assms(5)]
  have "verb_address (paths doc) ?p v = verb_address (acc_paths acc2) ?p v" by (simp add: p)
  also have "\<dots> = Some ?a"
    using assms(4) by (simp add: acc2 verb_address_add_route)
  finally show "address_at doc ?p v
           = Some (length s + length (filter (\<lambda>r'. \<not> hidden_rule app r') before))"
    by (simp add: address_at_def verb_address_def a)
qed

lemma for_rules_later_verb:
  assumes "for_rules cz app ext rs acc = Inr acc'"
    and "\<exists>r \<in> set rs. \<not> hidden_rule app r \<and> path_sub (rule r) = p \<and> v \<in> set (emitted_verbs r)"
  shows "\<exists>b. length (acc_objects acc) \<le> b \<and> verb_address (acc_paths acc') p v = Some b"
  using assms
proof (induction rs arbitrary: acc)
  case Nil
  then show ?case by simp
next
  case (Cons r rs)
  from Cons.prems(1) obtain acc1 where
    1: "process_rule cz app ext r acc = Inr acc1" and 2: "for_rules cz app ext rs acc1 = Inr acc'"
    by (auto simp add: bindE_Inr_iff)
  from process_rule_objects_length [OF 1]
  have le: "length (acc_objects acc) \<le> length (acc_objects acc1)" by simp
  show ?case
  proof (cases "\<exists>r \<in> set rs. \<not> hidden_rule app r \<and> path_sub (rule r) = p \<and> v \<in> set (emitted_verbs r)")
    case True
    from Cons.IH [OF 2 True] obtain b where
      "length (acc_objects acc1) \<le> b" "verb_address (acc_paths acc') p v = Some b"
      by blast
    with le show ?thesis by auto
  next
    case False
    with Cons.prems(2) have w: "\<not> hidden_rule app r" "path_sub (rule r) = p" "v \<in> set (emitted_verbs r)"
      by auto
    from False have "\<forall>r \<in> set rs. \<not> (\<not> hidden_rule app r \<and> path_sub (rule r) = p \<and> v \<in> set (emitted_verbs r))"
      by blast
    from for_rules_other_verb [OF 2 this]
    have e: "verb_address (acc_paths acc') p v = verb_address (acc_paths acc1) p v" .
    from process_rule_visible [OF w(1) 1] obtain schemas item where
      "acc1 = \<lparr>acc_objects = acc_objects acc @ [item], acc_schemas = schemas,
               acc_paths = add_route (length (acc_objects acc)) r (acc_paths acc)\<rparr>"
      by blast
    with w have "verb_address (acc_paths acc1) p v = Some (length (acc_objects acc))"
      by (simp add: verb_address_add_route)
    with e show ?thesis by simp
  qed
qed

lemma rule_address_overwritten:
  assumes "build_openapi_schema cz app ext s = Inr (doc, s')"
    and "url_map app = before @ r # after"
    and "\<not> hidden_rule app r"
    and "overwritten app after r v"
  shows "address_at doc (path_sub (rule r)) v
           \<noteq> Some (length s + length (filter (\<lambda>r'. \<not> hidden_rule app r') before))"
proof -
  let ?p = "path_sub (rule r)"
  from assms(1) obtain acc where
    f: "for_rules cz app ext (url_map app) \<lparr>acc_objects = s, acc_schemas = [], acc_paths = []\<rparr> = Inr acc"
    and p: "paths doc = acc_paths acc"
    by (auto simp add: build_Inr)
  from f obtain acc1 acc2 where
    1: "for_rules cz app ext before \<lparr>acc_objects = s, acc_schemas = [], acc_paths = []\<rparr> = Inr acc1"
    and 2: "process_rule cz app ext r acc1 = Inr acc2"
    and 3: "for_rules cz app ext after acc2 = Inr acc"
    by (auto simp add: assms(2) for_rules_append bindE_Inr_iff)
  from for_rules_objects_length [OF 1]
  have a: "length (acc_objects acc1) = length s + length (filter (\<lambda>r'. \<not> hidden_rule app r') before)"
    by simp
  from process_rule_objects_length [OF 2] assms(3)
  have l: "length (acc_objects acc2) = length (acc_objects acc1) + 1" by simp
  from assms(4) have "\<exists>r' \<in> set after. \<not> hidden_rule app r' \<and> path_sub (rule r') = ?p
                        \<and> v \<in> set (emitted_verbs r')"
    by (simp add: overwritten_def)
  from for_rules_later_verb [OF 3 this] obtain b where
    "length (acc_objects acc2) \<le> b" "verb_address (acc_paths acc) ?p v = Some b"
    by blast
  with a l p show ?thesis
    by (simp add: address_at_def verb_address_def)
qed

lemma build_objects_length:
  assumes "build_openapi_schema cz app ext s = Inr (doc, s')"
  shows "length s' = length s + length (filter (\<lambda>r. \<not> hidden_rule app r) (url_map app))"
proof -
  from assms obtain acc where
    f: "for_rules cz app ext (url_map app) \<lparr>acc_objects = s, acc_schemas = [], acc_paths = []\<rparr> = Inr acc"
    and s': "s' = acc_objects acc"
    by (auto simp add: build_Inr)
  from for_rules_objects_length [OF f] s' show ?thesis by simp
qed

lemma same_path_build:
  "build_openapi_schema (\<lambda>d. d) same_path_app demo_extension []
     = Inr (same_path_document, [bare_item, bare_item])"
  by (simp add: eval_defs demo_extension_def same_path_app_def first_rule_def second_rule_def
      bare_view_def bare_item_def same_path_document_def)

lemma same_path_facts:
  "url_map same_path_app = [] @ first_rule # [second_rule]"
  "\<not> hidden_rule same_path_app first_rule"
  "\<not> hidden_rule same_path_app second_rule"
  "path_sub (rule first_rule) = ''/s/{x}''"
  "path_sub (rule second_rule) = ''/s/{x}''"
  "emitted_verbs first_rule = [''get'', ''post'', ''put'']"
  "emitted_verbs second_rule = [''get'']"
  by (simp_all add: same_path_app_def hidden_rule_def bare_view_def getattr_def first_rule_def
      second_rule_def match_placeholder_def group_name_def emitted_verbs_def lower_def
      lower_char_def uppercase_def lowercase_def)

text \<open>
  C3: for a rule that is not hidden, the builder allocates one Path Item object, at
  the address given by the number of objects before the run plus the number of
  visible rules before this one; the run allocates one object for every visible rule
  and no other. The entry of a verb the rule shows holds that address in the final
  document exactly when it is not overwritten by a later rule. For two verbs \<open>v\<close> and
  \<open>w\<close> of the rule that are not overwritten, reading through either gives that one
  object, and a change made in place through \<open>v\<close> is read through \<open>w\<close>. A later rule
  with the same path key and other verbs does not disturb the sharing.
\<close>

theorem path_item_shared:
  assumes "build_openapi_schema cz app ext s = Inr (doc, s')"
    and "url_map app = before @ r # after"
    and "\<not> hidden_rule app r"
    and "v \<in> set (emitted_verbs r)" and "w \<in> set (emitted_verbs r)"
  shows "\<exists>a. a = length s + length (filter (\<lambda>r'. \<not> hidden_rule app r') before)
            \<and> a < length s'
            \<and> length s' = length s + length (filter (\<lambda>r'. \<not> hidden_rule app r') (url_map app))
            \<and> (address_at doc (path_sub (rule r)) v = Some a \<longleftrightarrow> \<not> overwritten app after r v)
            \<and> (address_at doc (path_sub (rule r)) w = Some a \<longleftrightarrow> \<not> overwritten app after r w)
            \<and> (\<not> overwritten app after r v \<and> \<not> overwritten app after r w \<longrightarrow>
                 path_item_at s' doc (path_sub (rule r)) v = Some (s' ! a)
                 \<and> path_item_at s' doc (path_sub (rule r)) w = Some (s' ! a)
                 \<and> path_item_at (mutate_at f s' doc (path_sub (rule r)) v) doc (path_sub (rule r)) w
                       = Some (f (s' ! a)))"
proof -
  let ?a = "length s + length (filter (\<lambda>r'. \<not> hidden_rule app r') before)"
  let ?p = "path_sub (rule r)"
  have kept: "address_at doc ?p u = Some ?a \<and> ?a < length s'"
    if "u \<in> set (emitted_verbs r)" "\<not> overwritten app after r u" for u
  proof -
    from that(2) have "\<forall>r' \<in> set after. \<not> (\<not> hidden_rule app r' \<and> path_sub (rule r') = ?p
            \<and> u \<in> set (emitted_verbs r'))"
      by (simp add: overwritten_def)
    from rule_address [OF assms(1,2,3) that(1) this] show ?thesis by simp
  qed
  have lost: "address_at doc ?p u \<noteq> Some ?a" if "overwritten app after r u" for u
    using rule_address_overwritten [OF assms(1,2,3) that] .
  from assms(2) have "length (filter (\<lambda>r'. \<not> hidden_rule app r') before)
      < length (filter (\<lambda>r'. \<not> hidden_rule app r') (url_map app))"
    using assms(3) by simp
  with build_objects_length [OF assms(1)]
  have 1: "?a < length s'"
    and 2: "length s' = length s + length (filter (\<lambda>r'. \<not> hidden_rule app r') (url_map app))"
    by simp_all
  from kept [OF assms(4)] lost
  have 3: "address_at doc ?p v = Some ?a \<longleftrightarrow> \<not> overwritten app after r v" by blast
  from kept [OF assms(5)] lost
  have 4: "address_at doc ?p w = Some ?a \<longleftrightarrow> \<not> overwritten app after r w" by blast
  have 5: "path_item_at s' doc ?p v = Some (s' ! ?a)
           \<and> path_item_at s' doc ?p w = Some (s' ! ?a)
           \<and> path_item_at (mutate_at f s' doc ?p v) doc ?p w = Some (f (s' ! ?a))"
    if "\<not> overwritten app after r v \<and> \<not> overwritten app after r w"
    using that 1 3 4 by (simp add: path_item_at_def mutate_at_def)
  from 1 2 3 4 5 show ?thesis by blast
qed

theorem path_item_shared_witness:
  "url_map demo_app = [openapi_rule] @ items_rule # [item_rule]
   \<and> address_at demo_document ''/items'' ''get'' = Some 0
   \<and> address_at demo_document ''/items'' ''post'' = Some 0
   \<and> path_item_at (mutate_at (\<lambda>i. i\<lparr>parameters := []\<rparr>) demo_objects demo_document ''/items'' ''get'')
        demo_document ''/items'' ''post''
       = Some ((demo_objects ! 0)\<lparr>parameters := []\<rparr>)
   \<and> length demo_objects = 2
   \<and> overwritten same_path_app [second_rule] first_rule ''get''
   \<and> address_at same_path_document ''/s/{x}'' ''get'' \<noteq> Some 0
   \<and> address_at same_path_document ''/s/{x}'' ''post'' = Some 0
   \<and> address_at same_path_document ''/s/{x}'' ''put'' = Some 0
   \<and> path_item_at (mutate_at (\<lambda>i. i\<lparr>parameters := []\<rparr>) [bare_item, bare_item]
          same_path_document ''/s/{x}'' ''post'') same_path_document ''/s/{x}'' ''put''
       = Some (bare_item\<lparr>parameters := []\<rparr>)"
proof -
  have u: "url_map demo_app = [openapi_rule] @ items_rule # [item_rule]"
    by (simp add: demo_url_map)
  have g: "''get'' \<in> set (emitted_verbs items_rule)" and p: "''post'' \<in> set (emitted_verbs items_rule)"
    by (simp_all add: demo_verbs)
  have n: "\<not> overwritten demo_app [item_rule] items_rule ''get''"
    "\<not> overwritten demo_app [item_rule] items_rule ''post''"
    by (simp_all add: overwritten_def demo_paths)
  have g2: "''post'' \<in> set (emitted_verbs first_rule)" and p2: "''put'' \<in> set (emitted_verbs first_rule)"
    and q2: "''get'' \<in> set (emitted_verbs first_rule)"
    by (simp_all add: same_path_facts)
  have n2: "\<not> overwritten same_path_app [second_rule] first_rule ''post''"
    "\<not> overwritten same_path_app [second_rule] first_rule ''put''"
    "overwritten same_path_app [second_rule] first_rule ''get''"
    by (simp_all add: overwritten_def same_path_facts)
  from path_item_shared [OF demo_build u demo_hidden(2) g p, of "\<lambda>i. i\<lparr>parameters := []\<rparr>"]
    path_item_shared [OF same_path_build same_path_facts(1,2) g2 p2, of "\<lambda>i. i\<lparr>parameters := []\<rparr>"]
    path_item_shared [OF same_path_build same_path_facts(1,2) q2 q2, of "\<lambda>i. i"]
    u n n2
  show ?thesis
    by (simp add: demo_paths same_path_facts demo_hidden demo_url_map)
qed

text \<open>
  C3 does not hold for every rule that is not hidden: a later visible rule with the
  same path key replaces the entries of the verbs it shows. With \<^verbatim>\<open>/s/<x>\<close> under GET
  and POST followed by \<^verbatim>\<open>/s/<string:x>\<close> under GET, the first rule shows \<open>get\<close> and
  \<open>post\<close>, but in the document \<open>get\<close> refers to the object of the second rule and \<open>post\<close>
  to that of the first; a change made through \<open>get\<close> is not read through \<open>post\<close>.
\<close>

theorem path_item_overwritten_counterexample:
  "build_openapi_schema (\<lambda>d. d) same_path_app demo_extension []
     = Inr (same_path_document, [bare_item, bare_item])
   \<and> \<not> hidden_rule same_path_app first_rule
   \<and> ''get'' \<in> set (emitted_verbs first_rule) \<and> ''post'' \<in> set (emitted_verbs first_rule)
   \<and> address_at same_path_document (path_sub (rule first_rule)) ''get'' = Some 1
   \<and> address_at same_path_document (path_sub (rule first_rule)) ''post'' = Some 0
   \<and> path_item_at (mutate_at (\<lambda>i. i\<lparr>parameters := []\<rparr>) [bare_item, bare_item]
          same_path_document (path_sub (rule first_rule)) ''get'')
        same_path_document (path_sub (rule first_rule)) ''post''
       = Some bare_item
   \<and> bare_item \<noteq> bare_item\<lparr>parameters := []\<rparr>"
  by (simp add: same_path_build same_path_facts address_at_def same_path_document_def
      path_item_at_def mutate_at_def bare_item_def)

section \<open>Properties of the conversion of results\<close>

text \<open>
  The conversion of a dataclass instance succeeds exactly when the value is
  \<open>convertible\<close>, and then returns the \<open>converted\<close> value; a \<open>plain\<close> value is returned
  as it is.
\<close>

lemma sequenceE_map:
  assumes "\<And>x. x \<in> set xs \<Longrightarrow> f x = (if ok x then Inr (g x) else Inl TypeError)"
  shows "sequenceE (map f xs) = (if list_all ok xs then Inr (map g xs) else Inl TypeError)"
  using assms by (induction xs) auto

lemma asdict_inner_eq:
  "asdict_inner v = (if convertible v then Inr (converted v) else Inl TypeError)"
proof (induction v rule: asdict_inner.induct)
  case (1 n fs)
  have "sequenceE (map (\<lambda>(f, v). bindE (asdict_inner v) (\<lambda>w. Inr (PStr f, w))) fs)
          = (if list_all (\<lambda>(f, v). convertible v) fs
             then Inr (map (\<lambda>(f, v). (PStr f, converted v)) fs) else Inl TypeError)"
    by (rule sequenceE_map) (auto simp add: 1)
  then show ?case by simp
next
  case (2 xs)
  have "sequenceE (map asdict_inner xs)
          = (if list_all convertible xs then Inr (map converted xs) else Inl TypeError)"
    by (rule sequenceE_map) (simp add: 2)
  then show ?case by simp
next
  case (3 xs)
  have "sequenceE (map asdict_inner xs)
          = (if list_all convertible xs then Inr (map converted xs) else Inl TypeError)"
    by (rule sequenceE_map) (simp add: 3)
  then show ?case by simp
next
  case (4 items)
  have "sequenceE (map (\<lambda>(k, v).
              bindE (asdict_inner k) (\<lambda>k'.
              bindE (asdict_inner v) (\<lambda>v'.
                if hashable k' then Inr (k', v') else Inl TypeError))) items)
          = (if list_all (\<lambda>(k, v). convertible k \<and> convertible v \<and> hashable (converted k)) items
             then Inr (map (\<lambda>(k, v). (converted k, converted v)) items) else Inl TypeError)"
    by (rule sequenceE_map) (auto simp add: 4 split: if_splits)
  then show ?case by simp
qed simp_all

lemma plain_converted: "plain v \<Longrightarrow> convertible v \<and> converted v = v"
proof (induction v rule: plain.induct)
  case (1 n fs)
  then show ?case by simp
next
  case (2 xs)
  then show ?case by (simp add: list_all_iff map_idI)
next
  case (3 xs)
  then show ?case by (simp add: list_all_iff map_idI)
next
  case (4 items)
  then have *: "\<And>k v. (k, v) \<in> set items \<Longrightarrow>
      convertible k \<and> converted k = k \<and> convertible v \<and> converted v = v \<and> hashable k"
    by (auto simp add: list_all_iff)
  then have "map (\<lambda>(k, v). (converted k, converted v)) items = map (\<lambda>kv. kv) items"
    by (intro map_cong) auto
  moreover from * have "list_all (\<lambda>(k, v). convertible k \<and> convertible v \<and> hashable (converted k)) items"
    by (auto simp add: list_all_iff)
  ultimately show ?case by simp
qed simp_all

lemma asdict_key_examples:
  "asdict (PDataclass ''D'' [(''m'', PDict [(PDataclass ''K'' [(''x'', PInt 1)], PInt 2)])]) = Inl TypeError"
  "asdict (PDataclass ''D'' [(''m'', PDict [(PTuple [PDataclass ''K'' [(''x'', PInt 1)], PInt 2], PInt 2)])])
     = Inl TypeError"
  "asdict (PDataclass ''D'' [(''m'', PList [PDict [(PTuple [PInt 1, PInt 2], PList [PDataclass ''K'' [(''x'', PInt 3)]])]])])
     = Inr (PDict [(PStr ''m'', PList [PDict [(PTuple [PInt 1, PInt 2], PList [PDict [(PStr ''x'', PInt 3)]])]])])"
  by simp_all

text \<open>
  C6: what \<open>dict_or_value\<close> is for every value. A dataclass instance becomes the
  dictionary of its declared fields, in their order, each field value converted at
  every depth, or \<open>TypeError\<close> is raised when a key of a dictionary inside has no hash
  after its conversion; when no field value has a dataclass instance inside, the
  field values are passed through as they are. A model instance becomes its
  \<^verbatim>\<open>.dict()\<close>; a dataclass itself, which is no instance, raises \<open>TypeError\<close>; every
  other value is returned unchanged. The decorator passes the converted value on to
  the wrapped function, with the status and the headers of a result tuple.
\<close>

theorem coerce_spec:
  "dict_or_value (PDataclass n fs) =
     (if convertible (PDataclass n fs)
      then Inr (PDict (map (\<lambda>(f, v). (PStr f, converted v)) fs))
      else Inl TypeError)
   \<and> ((\<forall>fv \<in> set fs. plain (snd fv)) \<longrightarrow>
        dict_or_value (PDataclass n fs) = Inr (PDict (map (\<lambda>(f, v). (PStr f, v)) fs)))
   \<and> dict_or_value (PModel n d) = Inr d
   \<and> dict_or_value (PDataclassType n) = Inl TypeError
   \<and> (\<not> is_dataclass v \<and> (\<forall>m d. v \<noteq> PModel m d) \<longrightarrow> dict_or_value v = Inr v)
   \<and> ((\<forall>xs. result \<noteq> PTuple xs) \<longrightarrow>
        convert_model_result func result =
          bindE (dict_or_value result) (\<lambda>d. Inr (func (d, PNone, PNone))))
   \<and> convert_model_result func (PTuple [result, status, headers]) =
        bindE (dict_or_value result) (\<lambda>d. Inr (func (d, status, headers)))"
proof -
  have 1: "dict_or_value (PDataclass n fs) =
     (if convertible (PDataclass n fs)
      then Inr (PDict (map (\<lambda>(f, v). (PStr f, converted v)) fs))
      else Inl TypeError)"
    using asdict_inner_eq [of "PDataclass n fs"] by (simp add: dict_or_value_def)
  have 2: "dict_or_value (PDataclass n fs) = Inr (PDict (map (\<lambda>(f, v). (PStr f, v)) fs))"
    if "\<forall>fv \<in> set fs. plain (snd fv)"
  proof -
    from that have p: "\<And>f v. (f, v) \<in> set fs \<Longrightarrow> convertible v \<and> converted v = v"
      using plain_converted by fastforce
    then have "map (\<lambda>(f, v). (PStr f, converted v)) fs = map (\<lambda>(f, v). (PStr f, v)) fs"
      by (intro map_cong) auto
    moreover from p have "convertible (PDataclass n fs)"
      by (auto simp add: list_all_iff)
    ultimately show ?thesis using 1 by simp
  qed
  have 3: "dict_or_value (PModel n d) = Inr d"
    by (simp add: dict_or_value_def)
  have 7: "dict_or_value (PDataclassType n) = Inl TypeError"
    by (simp add: dict_or_value_def)
  have 4: "dict_or_value v = Inr v" if "\<not> is_dataclass v \<and> (\<forall>m d. v \<noteq> PModel m d)"
    using that by (cases v) (simp_all add: dict_or_value_def)
  have 5: "convert_model_result func result =
          bindE (dict_or_value result) (\<lambda>d. Inr (func (d, PNone, PNone)))"
    if "\<forall>xs. result \<noteq> PTuple xs"
    using that by (cases result) (simp_all add: convert_model_result_def unpack_result_def)
  have 6: "convert_model_result func (PTuple [result, status, headers]) =
        bindE (dict_or_value result) (\<lambda>d. Inr (func (d, status, headers)))"
    by (simp add: convert_model_result_def unpack_result_def)
  from 1 2 3 4 5 6 7 show ?thesis by blast
qed

theorem coerce_spec_witness:
  "convert_model_result (\<lambda>x. x) (PDataclass ''Point'' [(''x'', PInt 1), (''tags'', PList [PStr ''a''])])
     = Inr (PDict [(PStr ''x'', PInt 1), (PStr ''tags'', PList [PStr ''a''])], PNone, PNone)
   \<and> convert_model_result (\<lambda>x. x) (PList [PInt 1, PInt 2]) = Inr (PList [PInt 1, PInt 2], PNone, PNone)
   \<and> dict_or_value (PDataclass ''D'' [(''m'', PDict [(PDataclass ''K'' [(''x'', PInt 1)], PInt 2)])])
       = Inl TypeError
   \<and> dict_or_value (PDataclass ''D'' [(''m'', PDict [(PTuple [PInt 1, PInt 2], PDataclass ''K'' [(''x'', PInt 3)])])])
       = Inr (PDict [(PStr ''m'', PDict [(PTuple [PInt 1, PInt 2], PDict [(PStr ''x'', PInt 3)])])])"
  using coerce_spec [where n = "''Point''" and fs = "[(''x'', PInt 1), (''tags'', PList [PStr ''a''])]"
      and v = "PList [PInt 1, PInt 2]"
      and result = "PDataclass ''Point'' [(''x'', PInt 1), (''tags'', PList [PStr ''a''])]"
      and func = "\<lambda>x. x"]
    coerce_spec [where v = "PList [PInt 1, PInt 2]" and result = "PList [PInt 1, PInt 2]"
      and func = "\<lambda>x. x"]
    coerce_spec [where n = "''D''" and fs = "[(''m'', PDict [(PDataclass ''K'' [(''x'', PInt 1)], PInt 2)])]"]
    coerce_spec [where n = "''D''"
      and fs = "[(''m'', PDict [(PTuple [PInt 1, PInt 2], PDataclass ''K'' [(''x'', PInt 3)])])]"]
  by simp

text \<open>
  C6 says that the mapping of a dataclass instance is shallow, nested field values
  passed through unconverted. \<^verbatim>\<open>Outer(inner=Inner(x=1))\<close> is returned as
  \<^verbatim>\<open>{"inner": {"x": 1}}\<close>, not as \<^verbatim>\<open>{"inner": Inner(x=1)}\<close>.
\<close>

theorem coerce_shallow_counterexample:
  "convert_model_result (\<lambda>x. x)
     (PDataclass ''Outer'' [(''inner'', PDataclass ''Inner'' [(''x'', PInt 1)])])
     = Inr (PDict [(PStr ''inner'', PDict [(PStr ''x'', PInt 1)])], PNone, PNone)
   \<and> convert_model_result (\<lambda>x. x)
     (PDataclass ''Outer'' [(''inner'', PDataclass ''Inner'' [(''x'', PInt 1)])])
     \<noteq> Inr (PDict [(PStr ''inner'', PDataclass ''Inner'' [(''x'', PInt 1)])], PNone, PNone)"
  by (simp add: convert_model_result_def unpack_result_def dict_or_value_def)

section \<open>Regeneration\<close>

lemma map_update_values:
  "map (\<lambda>va. (fst va, f (snd va))) (AList.update k v xs)
     = AList.update k (f v) (map (\<lambda>va. (fst va, f (snd va))) xs)"
  by (induction xs) auto

lemma map_of_map_values:
  "map_of (map (\<lambda>va. (fst va, f (snd va))) xs) k = map_option f (map_of xs k)"
  by (induction xs) auto

lemma map_fold_update_values:
  "map (\<lambda>va. (fst va, f (snd va))) (fold (\<lambda>k vs. AList.update k a vs) ks vs)
     = fold (\<lambda>k vs. AList.update k (f a) vs) ks (map (\<lambda>va. (fst va, f (snd va))) vs)"
  by (induction ks arbitrary: vs) (simp_all add: map_update_values)

lemma map_add_methods:
  "map (\<lambda>va. (fst va, f (snd va))) (add_methods a r vs)
     = add_methods (f a) r (map (\<lambda>va. (fst va, f (snd va))) vs)"
  by (simp add: add_methods_emitted map_fold_update_values)

lemma map_add_route:
  "map (\<lambda>pv. (fst pv, map (\<lambda>va. (fst va, f (snd va))) (snd pv))) (add_route a r ps)
     = add_route (f a) r (map (\<lambda>pv. (fst pv, map (\<lambda>va. (fst va, f (snd va))) (snd pv))) ps)"
proof -
  let ?g = "map (\<lambda>va. (fst va, f (snd va)))"
  have "map (\<lambda>pv. (fst pv, ?g (snd pv))) (AList.update k v ps)
          = AList.update k (?g v) (map (\<lambda>pv. (fst pv, ?g (snd pv))) ps)" for k v
    by (rule map_update_values)
  moreover have "map_of (map (\<lambda>pv. (fst pv, ?g (snd pv))) ps) k = map_option ?g (map_of ps k)" for k
    by (rule map_of_map_values)
  ultimately show ?thesis
    by (simp add: add_route_def Let_def map_add_methods split: option.splits)
qed

lemma resolve_paths_add_route:
  "resolve_paths s (add_route a r ps) = add_route (s ! a) r (resolve_paths s ps)"
  unfolding resolve_paths_def by (rule map_add_route)

lemma resolve_paths_append:
  "addresses_below (length s) ps \<Longrightarrow> resolve_paths (s @ new) ps = resolve_paths s ps"
  by (auto simp add: resolve_paths_def addresses_below_def nth_append)

lemma set_fold_update:
  "set (fold (\<lambda>k vs. AList.update k a vs) ks vs) \<subseteq> set vs \<union> {(k, a) | k. k \<in> set ks}"
proof (induction ks arbitrary: vs)
  case Nil
  then show ?case by simp
next
  case (Cons k ks)
  have "set (AList.update k a vs) \<subseteq> insert (k, a) (set vs)"
    by (induction vs) auto
  with Cons [of "AList.update k a vs"] show ?case by auto
qed

lemma set_update_subset: "set (AList.update k v xs) \<subseteq> insert (k, v) (set xs)"
  by (induction xs) auto

lemma addresses_below_add_route:
  assumes "addresses_below n ps" and "a < m" and "n \<le> m"
  shows "addresses_below m (add_route a r ps)"
proof -
  define p where "p = path_sub (rule r)"
  define old where "old = (case map_of ps p of None \<Rightarrow> [] | Some verbs \<Rightarrow> verbs)"
  have old: "snd va < n" if "va \<in> set old" for va
  proof (cases "map_of ps p")
    case None
    with that show ?thesis by (simp add: old_def)
  next
    case (Some verbs)
    then have "(p, verbs) \<in> set ps" by (rule map_of_SomeD)
    with assms(1) have "\<forall>va \<in> set verbs. snd va < n"
      by (auto simp add: addresses_below_def)
    with that Some show ?thesis by (simp add: old_def)
  qed
  have new: "snd va < m" if "va \<in> set (add_methods a r old)" for va
  proof -
    from that set_fold_update [of a "emitted_verbs r" old]
    have "va \<in> set old \<or> snd va = a"
      by (auto simp add: add_methods_emitted)
    then show ?thesis
    proof
      assume "va \<in> set old"
      then have "snd va < n" by (rule old)
      with assms(3) show ?thesis by simp
    next
      assume "snd va = a"
      with assms(2) show ?thesis by simp
    qed
  qed
  have route: "add_route a r ps = AList.update p (add_methods a r old) ps"
    by (simp add: add_route_def Let_def p_def old_def)
  show ?thesis
    unfolding addresses_below_def
  proof (intro ballI)
    fix pv va assume pv: "pv \<in> set (add_route a r ps)" and va: "va \<in> set (snd pv)"
    from pv set_update_subset [of p "add_methods a r old" ps]
    have "pv = (p, add_methods a r old) \<or> pv \<in> set ps"
      by (auto simp add: route)
    then show "snd va < m"
    proof
      assume "pv = (p, add_methods a r old)"
      with va show ?thesis by (simp add: new)
    next
      assume "pv \<in> set ps"
      with assms(1) va have "snd va < n" by (auto simp add: addresses_below_def)
      with assms(3) show ?thesis by simp
    qed
  qed
qed

lemma process_rule_agree:
  assumes "agree acc1 acc2"
  shows "rel_sum (=) agree (process_rule cz app ext r acc1) (process_rule cz app ext r acc2)"
proof (cases "map_of (view_functions app) (endpoint r)")
  case None
  then show ?thesis by (simp add: process_rule_def)
next
  case (Some func)
  show ?thesis
  proof (cases "getattr (flask_schema_hidden func) False")
    case True
    with Some assms show ?thesis by (simp add: process_rule_def)
  next
    case False
    from assms have sch: "acc_schemas acc1 = acc_schemas acc2" by (simp add: agree_def)
    show ?thesis
    proof (cases "build_path_object cz ext func r (acc_schemas acc2)")
      case (Inl e)
      with Some False sch show ?thesis by (simp add: process_rule_def)
    next
      case (Inr res)
      obtain schemas item where res: "res = (schemas, item)" by (cases res)
      have step: "resolve_paths (s @ [item]) (add_route (length s) r ps)
                    = add_route item r (resolve_paths s ps)
                \<and> addresses_below (length (s @ [item])) (add_route (length s) r ps)"
        if "addresses_below (length s) ps" for s ps
        using that addresses_below_add_route [OF that, of "length s" "Suc (length s)" r]
        by (simp add: resolve_paths_add_route resolve_paths_append)
      from assms have
        v1: "addresses_below (length (acc_objects acc1)) (acc_paths acc1)" and
        v2: "addresses_below (length (acc_objects acc2)) (acc_paths acc2)" and
        eq: "resolve_paths (acc_objects acc1) (acc_paths acc1)
               = resolve_paths (acc_objects acc2) (acc_paths acc2)"
        by (simp_all add: agree_def)
      from step [OF v1] step [OF v2] eq Some False sch Inr res show ?thesis
        by (simp add: process_rule_def alloc_def agree_def)
    qed
  qed
qed

lemma for_rules_agree:
  "agree acc1 acc2 \<Longrightarrow>
     rel_sum (=) agree (for_rules cz app ext rs acc1) (for_rules cz app ext rs acc2)"
proof (induction rs arbitrary: acc1 acc2)
  case Nil
  then show ?case by simp
next
  case (Cons r rs)
  have step: "rel_sum (=) agree (process_rule cz app ext r acc1) (process_rule cz app ext r acc2)"
    using Cons.prems by (rule process_rule_agree)
  show ?case
  proof (cases "process_rule cz app ext r acc1")
    case (Inl e)
    with step show ?thesis
      by (cases "process_rule cz app ext r acc2") simp_all
  next
    case (Inr a1)
    with step obtain a2 where "process_rule cz app ext r acc2 = Inr a2" and "agree a1 a2"
      by (cases "process_rule cz app ext r acc2") simp_all
    with Inr Cons.IH [of a1 a2] show ?thesis by simp
  qed
qed

text \<open>
  C9: the value of the returned document does not depend on the objects that exist
  when the builder starts, so it depends on the route table, the annotations and the
  extension only. A second run, started on the store the first run left behind,
  returns a document of the same value (or the same error), and leaves the value of
  the first document as it was.
\<close>

theorem regeneration_deterministic:
  "built_document cz app ext s1 = built_document cz app ext s2
   \<and> (build_openapi_schema cz app ext s1 = Inr (d1, s1') \<longrightarrow>
        (\<exists>d2 s2'. build_openapi_schema cz app ext s1' = Inr (d2, s2')
                  \<and> resolve s2' d2 = resolve s1' d1
                  \<and> resolve s2' d1 = resolve s1' d1))"
proof -
  let ?init = "\<lambda>s. \<lparr>acc_objects = s, acc_schemas = [], acc_paths = []\<rparr>"
  have init: "agree (?init s) (?init t)" for s t
    by (simp add: agree_def resolve_paths_def addresses_below_def)
  have run: "rel_sum (=) agree (for_rules cz app ext (url_map app) (?init s))
                               (for_rules cz app ext (url_map app) (?init t))" for s t
    using init by (rule for_rules_agree)
  have res: "resolve s d = \<lparr>openapi = openapi d, info_title = info_title d,
      info_version = info_version d, components_schemas = components_schemas d,
      paths = resolve_paths s (paths d), doc_tags = doc_tags d, doc_servers = doc_servers d\<rparr>" for s d
    by (simp add: resolve_def resolve_paths_def)
  have 1: "built_document cz app ext s = built_document cz app ext t" for s t
  proof (cases "for_rules cz app ext (url_map app) (?init s)")
    case (Inl e)
    with run [of s t] show ?thesis
      by (cases "for_rules cz app ext (url_map app) (?init t)")
        (simp_all add: built_document_def build_openapi_schema_def)
  next
    case (Inr a1)
    with run [of s t] obtain a2 where
      "for_rules cz app ext (url_map app) (?init t) = Inr a2" and "agree a1 a2"
      by (cases "for_rules cz app ext (url_map app) (?init t)") simp_all
    with Inr show ?thesis
      by (simp add: built_document_def build_openapi_schema_def res agree_def)
  qed
  have 2: "\<exists>d2 s2'. build_openapi_schema cz app ext s1' = Inr (d2, s2')
                  \<and> resolve s2' d2 = resolve s1' d1
                  \<and> resolve s2' d1 = resolve s1' d1"
    if b: "build_openapi_schema cz app ext s1 = Inr (d1, s1')"
  proof -
    from b have "built_document cz app ext s1 = Inr (resolve s1' d1)"
      by (simp add: built_document_def)
    with 1 [of s1' s1] obtain d2 s2' where
      b2: "build_openapi_schema cz app ext s1' = Inr (d2, s2')" and r2: "resolve s2' d2 = resolve s1' d1"
      by (auto simp add: built_document_def split: sum.splits)
    from b obtain acc where
      f: "for_rules cz app ext (url_map app) (?init s1) = Inr acc"
      and p: "paths d1 = acc_paths acc" and s: "s1' = acc_objects acc"
      by (auto simp add: build_Inr)
    from run [of s1 s1] f have "agree acc acc" by simp
    then have valid: "addresses_below (length s1') (paths d1)"
      by (simp add: agree_def p s)
    from b2 obtain acc2 where
      "for_rules cz app ext (url_map app) (?init s1') = Inr acc2" and "s2' = acc_objects acc2"
      by (auto simp add: build_Inr)
    with for_rules_objects [of cz app ext "url_map app" "?init s1'" acc2]
    obtain new where "s2' = s1' @ new" by auto
    with valid have "resolve s2' d1 = resolve s1' d1"
      by (simp add: res resolve_paths_append)
    with b2 r2 show ?thesis by blast
  qed
  from 1 2 show ?thesis by blast
qed

theorem regeneration_deterministic_witness:
  "built_document (\<lambda>d. d) demo_app demo_extension [] = Inr (resolve demo_objects demo_document)
   \<and> built_document (\<lambda>d. d) demo_app demo_extension demo_objects
       = Inr (resolve demo_objects demo_document)"
proof -
  have "built_document (\<lambda>d. d) demo_app demo_extension [] = Inr (resolve demo_objects demo_document)"
    by (simp add: built_document_def demo_build)
  with regeneration_deterministic [of "\<lambda>d. d" demo_app demo_extension "[]" demo_objects demo_document
      demo_objects]
  show ?thesis by simp
qed

section \<open>The parts of a Path Item\<close>

lemma build_path_object_Inr:
  assumes "build_path_object cz ext func r schemas = Inr (schemas', item)"
  shows "\<exists>s1 s2 body query.
           doc_lines func = Inr (description item, summary item)
         \<and> add_responses cz ext (getattr (flask_schema_response func) []) (schemas, [])
             = Inr (s1, responses item)
         \<and> request_body cz ext func s1 = Inr (s2, body)
         \<and> query_parameters cz ext func s2 = Inr (schemas', query)
         \<and> parameters item = query @ path_parameters r
         \<and> requestBody item = body"
proof -
  from assms obtain d where d: "doc_lines func = Inr d" and
    1: "bindE (add_responses cz ext (getattr (flask_schema_response func) []) (schemas, []))
          (\<lambda>a. bindE (request_body cz ext func (fst a))
            (\<lambda>b. bindE (query_parameters cz ext func (fst b))
              (\<lambda>q. Inr (fst q,
                 \<lparr>parameters = snd q @ path_parameters r, responses = snd a,
                  description = fst d, summary = snd d, requestBody = snd b\<rparr>))))
         = Inr (schemas', item)"
    unfolding build_path_object_def bindE_Inr_iff split_beta by blast
  from 1 obtain a where a: "add_responses cz ext (getattr (flask_schema_response func) []) (schemas, []) = Inr a"
    and 2: "bindE (request_body cz ext func (fst a))
            (\<lambda>b. bindE (query_parameters cz ext func (fst b))
              (\<lambda>q. Inr (fst q,
                 \<lparr>parameters = snd q @ path_parameters r, responses = snd a,
                  description = fst d, summary = snd d, requestBody = snd b\<rparr>)))
         = Inr (schemas', item)"
    unfolding bindE_Inr_iff by blast
  from 2 obtain b where b: "request_body cz ext func (fst a) = Inr b"
    and 3: "bindE (query_parameters cz ext func (fst b))
              (\<lambda>q. Inr (fst q,
                 \<lparr>parameters = snd q @ path_parameters r, responses = snd a,
                  description = fst d, summary = snd d, requestBody = snd b\<rparr>))
         = Inr (schemas', item)"
    unfolding bindE_Inr_iff by blast
  from 3 obtain q where q: "query_parameters cz ext func (fst b) = Inr q"
    and 4: "schemas' = fst q"
    and 5: "item = \<lparr>parameters = snd q @ path_parameters r, responses = snd a,
                  description = fst d, summary = snd d, requestBody = snd b\<rparr>"
    unfolding bindE_Inr_iff by auto
  from d a b q 4 5 show ?thesis
    by (intro exI [of _ "fst a"] exI [of _ "fst b"] exI [of _ "snd b"] exI [of _ "snd q"]) simp
qed

section \<open>Properties of the component table\<close>

text \<open>
  Assignment and \<^verbatim>\<open>update\<close> on a table: the names stay distinct, a name that is
  assigned is found with the value assigned last.
\<close>

lemma key_norm_JStr [simp]: "key_norm k = JStr n \<longleftrightarrow> k = JStr n"
  by (cases k) auto












lemma dict_update_examples:
  "dict_update [] (JArr []) = Inr []"
  "dict_update [] (JStr []) = Inr []"
  "dict_update [] (JStr ''ab'') = Inl ValueError"
  "dict_update [] (JArr [JStr ''ab'']) = Inr [(JStr ''a'', JStr ''b'')]"
  "dict_update [] (JArr [JObj [(''a'', JNum 1), (''b'', JNum 2)]]) = Inr [(JStr ''a'', JStr ''b'')]"
  "dict_update [] (JArr [JArr [JNum 1, JNum 2, JNum 3]]) = Inl ValueError"
  "dict_update [] (JArr [JNum 5]) = Inl TypeError"
  "dict_update [] JNull = Inl TypeError"
  "dict_update [] (JNum 5) = Inl TypeError"
  "dict_update [] (JArr [JArr [JArr [JNum 1], JNum 2]]) = Inl TypeError"
  "dict_update [(JNum 1, JStr ''a'')] (JArr [JArr [JBool True, JStr ''x'']]) = Inr [(JNum 1, JStr ''x'')]"
  "dict_update [(JStr ''k'', JNum 0)] (JArr [JArr [JNull, JStr ''x''], JArr [JStr ''k'', JNum 1]])
     = Inr [(JStr ''k'', JNum 1), (JNull, JStr ''x'')]"
  by simp_all


































section \<open>Properties of the documentation string and the path pattern\<close>

lemma lines_from_nonempty: "cur \<noteq> [] \<or> s \<noteq> [] \<Longrightarrow> lines_from cur s \<noteq> []"
  by (induction s arbitrary: cur) auto

lemma splitlines_empty_iff: "splitlines s = [] \<longleftrightarrow> s = []"
  using lines_from_nonempty [of "[]" s] by (auto simp add: splitlines_def)

lemma doc_lines_cases:
  "func_doc func = None \<Longrightarrow> doc_lines func = Inr (None, None)"
  "func_doc func = Some d \<Longrightarrow> d \<noteq> [] \<Longrightarrow>
     doc_lines func = Inr (Some (join [CHR 0x0A] (tl (splitlines d))), Some (hd (splitlines d)))"
  "func_doc func = Some [] \<Longrightarrow> doc_lines func = Inl ValueError"
  by (auto simp add: doc_lines_def splitlines_empty_iff split: list.splits)
    (simp add: splitlines_def)

lemma build_path_object_doc:
  "build_path_object cz ext func r schemas = Inr (schemas', item) \<Longrightarrow>
     doc_lines func = Inr (description item, summary item)"
  by (auto simp add: build_path_object_def bindE_Inr_iff)

text \<open>
  C7: a documentation string gives \<open>summary\<close> and \<open>description\<close>, and a view function
  without one gives neither (\<open>doc_lines_cases\<close>, \<open>build_path_object_doc\<close>), but only for a
  string that has a line: on the empty documentation string the unpacking of line 252
  fails and the builder raises \<open>ValueError\<close> instead of returning a document.
\<close>

theorem empty_docstring_raises:
  "build_openapi_schema (\<lambda>d. d)
     \<lparr>url_map = [items_rule],
      view_functions = [(''list_items'', list_items_view\<lparr>func_doc := Some []\<rparr>)]\<rparr>
     demo_extension [] = Inl ValueError"
  by (simp add: eval_defs demo_defs)

text \<open>
  The pattern on one placeholder: text without an opening bracket is kept, a
  placeholder with a converter becomes its name in braces, and so does a placeholder
  without converter when no colon follows anywhere behind it.
\<close>

lemma path_sub_prefix:
  "CHR ''<'' \<notin> set pre \<Longrightarrow> path_sub (pre @ s) = pre @ path_sub s"
  by (induction pre) auto

lemma path_sub_no_placeholder: "CHR ''<'' \<notin> set s \<Longrightarrow> path_sub s = s"
  using path_sub_prefix [of s "[]"] by simp

lemma group_name_match:
  assumes "name \<noteq> []" and "CHR ''>'' \<notin> set name"
  shows "group_name (name @ CHR ''>'' # post) = Some (name, post)"
proof -
  have n: "x \<noteq> CHR ''>''" if "x \<in> set name" for x
    using that assms(2) by auto
  have t: "takeWhile (\<lambda>c. c \<noteq> CHR ''>'') (name @ CHR ''>'' # post) = name"
    using n by simp
  have d: "dropWhile (\<lambda>c. c \<noteq> CHR ''>'') (name @ CHR ''>'' # post) = CHR ''>'' # post"
    using n by simp
  from assms(1) show ?thesis
    by (simp add: group_name_def t d)
qed

lemma path_sub_converter:
  assumes "CHR '':'' \<notin> set conv" and "name \<noteq> []" and "CHR ''>'' \<notin> set name"
  shows "path_sub (CHR ''<'' # conv @ CHR '':'' # name @ CHR ''>'' # post)
           = ''{'' @ name @ ''}'' @ path_sub post"
proof -
  have "x \<noteq> CHR '':''" if "x \<in> set conv" for x
    using that assms(1) by auto
  then have "dropWhile (\<lambda>c. c \<noteq> CHR '':'') (conv @ CHR '':'' # name @ CHR ''>'' # post)
          = CHR '':'' # name @ CHR ''>'' # post"
    by simp
  then have "match_placeholder (conv @ CHR '':'' # name @ CHR ''>'' # post) = Some (name, post)"
    using group_name_match [OF assms(2,3)] by (simp add: match_placeholder_def)
  then show ?thesis by simp
qed

lemma path_sub_plain:
  assumes "name \<noteq> []" and "CHR ''>'' \<notin> set name" and "CHR '':'' \<notin> set name"
    and "CHR '':'' \<notin> set post"
  shows "path_sub (CHR ''<'' # name @ CHR ''>'' # post) = ''{'' @ name @ ''}'' @ path_sub post"
proof -
  have "dropWhile (\<lambda>c. c \<noteq> CHR '':'') (name @ CHR ''>'' # post) = []"
    using assms(3,4) by auto
  then have "match_placeholder (name @ CHR ''>'' # post) = Some (name, post)"
    using group_name_match [OF assms(1,2)] by (simp add: match_placeholder_def)
  then show ?thesis by simp
qed

lemma path_sub_swallows:
  assumes "CHR '':'' \<notin> set (first @ CHR ''>'' # between @ CHR ''<'' # conv)"
    and "name \<noteq> []" and "CHR ''>'' \<notin> set name"
  shows "path_sub (CHR ''<'' # first @ CHR ''>'' # between @ CHR ''<'' # conv @ CHR '':'' # name
                     @ CHR ''>'' # post)
           = ''{'' @ name @ ''}'' @ path_sub post"
  using path_sub_converter [OF assms] by simp

text \<open>
  The parameters of a Path Item: the query parameters, then one object with the keys
  \<open>name\<close> and \<open>in\<close> for every entry of the converters of the rule.
\<close>

lemma build_path_object_parameters:
  assumes "build_path_object cz ext func r schemas = Inr (schemas', item)"
  shows "\<exists>query. parameters item = query @ path_parameters r
           \<and> (\<forall>p \<in> set query. map_of (case p of JObj kvs \<Rightarrow> kvs | _ \<Rightarrow> []) ''in'' = Some (JStr ''query''))"
proof -
  from build_path_object_Inr [OF assms] obtain s2 query where
    q: "query_parameters cz ext func s2 = Inr (schemas', query)"
    and p: "parameters item = query @ path_parameters r"
    by blast
  have "\<forall>p \<in> set query. map_of (case p of JObj kvs \<Rightarrow> kvs | _ \<Rightarrow> []) ''in'' = Some (JStr ''query'')"
  proof (cases "flask_schema_querystring func")
    case None
    with q show ?thesis by (simp add: query_parameters_def)
  next
    case (Some m)
    with q obtain res where
      "(case map_of (snd res) ''properties'' of
           None \<Rightarrow> Inl KeyError
         | Some (JObj properties) \<Rightarrow>
             Inr (fst res,
                  map (\<lambda>item. JObj [(''name'', JStr (fst item)), (''in'', JStr ''query''),
                                     (''schema'', snd item)]) properties)
         | Some _ \<Rightarrow> Inl AttributeError) = Inr (schemas', query)"
      by (auto simp add: query_parameters_def bindE_Inr_iff split_beta)
    then show ?thesis
      by (auto split: option.splits json.splits)
  qed
  with p show ?thesis by blast
qed

lemma path_parameters_spec:
  "path_parameters r = map (\<lambda>name. JObj [(''name'', JStr name), (''in'', JStr ''path'')])
                          (map fst (converters r))"
  by (simp add: path_parameters_def)

text \<open>
  C4: the pattern does not rewrite placeholder by placeholder. Behind an opening
  bracket the optional prefix runs to the first colon of the rest of the text, so
  a placeholder without converter that is followed by one with a converter is
  swallowed: both are replaced by the name of the second (\<open>path_sub_swallows\<close>). The
  two path parameters are still listed, without a schema and behind the query
  parameters.
\<close>

theorem greedy_pattern_merges_placeholders:
  "path_sub ''/users/<name>/items/<int:item_id>'' = ''/users/{item_id}''
   \<and> build_openapi_schema (\<lambda>d. d)
       \<lparr>url_map = [\<lparr>rule = ''/users/<name>/items/<int:item_id>'', endpoint = ''list_items'',
                    methods = [''GET''], provide_automatic_options = False,
                    converters = [(''name'', ''default''), (''item_id'', ''int'')]\<rparr>],
        view_functions = [(''list_items'', \<lparr>func_doc = None, flask_schema_hidden = None,
            flask_schema_response = None, flask_schema_request = None,
            flask_schema_querystring = None\<rparr>)]\<rparr>
       demo_extension []
     = Inr (\<lparr>openapi = ''3.0.3'', info_title = Some ''demo'', info_version = ''0.1.0'',
             components_schemas = [], paths = [(''/users/{item_id}'', [(''get'', 0)])],
             doc_tags = [], doc_servers = Some []\<rparr>,
            [\<lparr>parameters = [JObj [(''name'', JStr ''name''), (''in'', JStr ''path'')],
                            JObj [(''name'', JStr ''item_id''), (''in'', JStr ''path'')]],
              responses = [], description = None, summary = None, requestBody = None\<rparr>])"
  by (simp add: eval_defs demo_defs)

end
